theory Spec2Isabelle
  imports Main "HOL-Library.Word" "HOL-Library.AList" "HOL-Library.Multiset"
begin

section \<open>The default entries holder (entries\_holder.go)\<close>

text \<open>
  \<open>EntryID\<close> is a \<open>uint64\<close> (the builder converts it with \<open>uint64(tx.EID)\<close> and
  \<open>EntryID(fieldData.Eid)\<close>), \<open>Entries\<close> a slice of them. A Go \<open>map[Key]Entries\<close> is kept
  as an association list whose keys are distinct: \<open>map_of\<close> is the lookup,
  \<open>AList.update\<close> the store \<open>m[k] = v\<close>, \<open>length\<close> the \<open>len\<close> of the map, and the order of
  the list stands for the order in which the runtime happens to range over the map.
  The key type is left open: \<open>NewKey\<close> is not among the source files.
\<close>

type_synonym EntryID = "64 word"
type_synonym Entries = "EntryID list"

record 'k DefaultEntriesHolder =
  debug :: bool
  maxLen :: int
  avgLen :: int
  plEntries :: "('k \<times> Entries) list"

definition NewDefaultEntriesHolder :: "'k DefaultEntriesHolder" where
  "NewDefaultEntriesHolder = \<lparr>debug = False, maxLen = 0, avgLen = 0, plEntries = []\<rparr>"

definition EnableDebug :: "bool \<Rightarrow> 'k DefaultEntriesHolder \<Rightarrow> 'k DefaultEntriesHolder" where
  "EnableDebug d h = h\<lparr>debug := d\<rparr>"

text \<open>
  \<open>AppendEntryID\<close>, statement by statement: the lookup binds the local \<open>entries\<close> (the nil
  slice when the key is absent) and \<open>hit\<close>; on a miss the map receives \<open>Entries{id}\<close>; then
  the local \<open>entries\<close> is extended by \<open>id\<close> and stored under the key.
\<close>

definition AppendEntryID :: "'k \<Rightarrow> EntryID \<Rightarrow> 'k DefaultEntriesHolder \<Rightarrow> 'k DefaultEntriesHolder" where
  "AppendEntryID key eid h =
     (let (entries, hit) = (case map_of (plEntries h) key of
                              Some es \<Rightarrow> (es, True)
                            | None \<Rightarrow> ([], False));
          h1 = (if \<not> hit then h\<lparr>plEntries := AList.update key [eid] (plEntries h)\<rparr> else h);
          entries' = entries @ [eid]
      in h1\<lparr>plEntries := AList.update key entries' (plEntries h1)\<rparr>)"

definition getEntries :: "'k DefaultEntriesHolder \<Rightarrow> 'k \<Rightarrow> Entries" where
  "getEntries h key = (case map_of (plEntries h) key of Some entries \<Rightarrow> entries | None \<Rightarrow> [])"

text \<open>
  Modelled from the spec: the \<open>sort.Interface\<close> methods of \<open>Entries\<close> (\<open>Len\<close>, \<open>Less\<close>,
  \<open>Swap\<close>) are not among the source files; the spec orders entries ascending by the
  integer value of the EntryID, so \<open>sort.Sort(entries)\<close> leaves the slice (and with it the
  map's slice, which shares the backing array) as the ascending rearrangement.
\<close>

definition sort_Entries :: "Entries \<Rightarrow> Entries" where
  "sort_Entries entries = sort entries"

text \<open>
  The loop of \<open>makeEntriesSorted\<close> over the map, carrying \<open>h.maxLen\<close> and \<open>total\<close>.
  Both are \<open>int64\<close> in the source; they only ever hold lengths of slices that are in
  memory at once and sums of such lengths, which stay far below \<open>2^63\<close>, so they are kept
  as unbounded integers.
\<close>

fun makeEntriesSorted_loop ::
  "('k \<times> Entries) list \<Rightarrow> int \<Rightarrow> int \<Rightarrow> ('k \<times> Entries) list \<times> int \<times> int" where
  "makeEntriesSorted_loop [] mx tot = ([], mx, tot)"
| "makeEntriesSorted_loop ((key, entries) # rest) mx tot =
     (let entries' = sort_Entries entries;
          mx' = (if mx < int (length entries') then int (length entries') else mx);
          tot' = tot + int (length entries')
      in case makeEntriesSorted_loop rest mx' tot' of
           (rest', m, t) \<Rightarrow> ((key, entries') # rest', m, t))"

definition makeEntriesSorted :: "'k DefaultEntriesHolder \<Rightarrow> 'k DefaultEntriesHolder" where
  "makeEntriesSorted h =
     (case makeEntriesSorted_loop (plEntries h) (maxLen h) 0 of
        (pl, mx, tot) \<Rightarrow>
          (let h1 = h\<lparr>plEntries := pl, maxLen := mx\<rparr>
           in if length (plEntries h1) > 0
              then h1\<lparr>avgLen := tot div int (length (plEntries h1))\<rparr>
              else h1))"

definition CompileEntries :: "'k DefaultEntriesHolder \<Rightarrow> 'k DefaultEntriesHolder" where
  "CompileEntries h = makeEntriesSorted h"

subsection \<open>GetEntries\<close>

text \<open>
  The field descriptor as the holder reads it: its \<open>ID\<close>, its name \<open>Field\<close> and the
  \<open>ParseAssign\<close> and \<open>ParseValue\<close> of its parser, which is a plug-in and therefore a
  parameter. \<open>NewKey\<close>, \<open>newQKey\<close> and \<open>NewEntriesCursor\<close> are constructors that are
  not among the source files:
  \<open>NewKey\<close> is a parameter, a \<open>QKey\<close> is the pair it is made from and a cursor the pair of
  its key and the posting list it walks.
\<close>

type_synonym BEField = string

datatype 'v QKey = newQKey BEField 'v

datatype 'v EntriesCursor = NewEntriesCursor "'v QKey" Entries

type_synonym 'v CursorGroup = "'v EntriesCursor list"

record ('v, 'e) fieldDesc =
  fd_ID :: "64 word"
  fd_Field :: BEField
  ParseAssign :: "'v \<Rightarrow> 'e + 64 word list"
  ParseValue :: "'v \<Rightarrow> 'e + 64 word list"

text \<open>
  The query is written in state-passing style: every function returns the holder next to
  its result, as the receiver \<open>h\<close> is a pointer the method could write through.
\<close>

fun GetEntries_ids ::
  "(64 word \<Rightarrow> 64 word \<Rightarrow> 'k) \<Rightarrow> ('v, 'e) fieldDesc \<Rightarrow> 'v \<Rightarrow> 64 word list \<Rightarrow>
   'v CursorGroup \<Rightarrow> 'k DefaultEntriesHolder \<Rightarrow> 'v CursorGroup \<times> 'k DefaultEntriesHolder" where
  "GetEntries_ids NewKey field vi [] r h = (r, h)"
| "GetEntries_ids NewKey field vi (i # ids) r h =
     (let key = NewKey (fd_ID field) i;
          entries = getEntries h key
      in if length entries > 0
         then GetEntries_ids NewKey field vi ids
                (r @ [NewEntriesCursor (newQKey (fd_Field field) vi) entries]) h
         else GetEntries_ids NewKey field vi ids r h)"

fun GetEntries_loop ::
  "(64 word \<Rightarrow> 64 word \<Rightarrow> 'k) \<Rightarrow> ('v, 'e) fieldDesc \<Rightarrow> 'v list \<Rightarrow>
   'v CursorGroup \<Rightarrow> 'k DefaultEntriesHolder \<Rightarrow> ('e + 'v CursorGroup) \<times> 'k DefaultEntriesHolder" where
  "GetEntries_loop NewKey field [] r h = (Inr r, h)"
| "GetEntries_loop NewKey field (vi # assigns) r h =
     (case ParseAssign field vi of
        Inl e \<Rightarrow> (Inl e, h)
      | Inr ids \<Rightarrow>
          (case GetEntries_ids NewKey field vi ids r h of
             (r', h') \<Rightarrow> GetEntries_loop NewKey field assigns r' h'))"

definition GetEntries ::
  "(64 word \<Rightarrow> 64 word \<Rightarrow> 'k) \<Rightarrow> ('v, 'e) fieldDesc \<Rightarrow> 'v list \<Rightarrow>
   'k DefaultEntriesHolder \<Rightarrow> ('e + 'v CursorGroup) \<times> 'k DefaultEntriesHolder" where
  "GetEntries NewKey field assigns h = GetEntries_loop NewKey field assigns [] h"

text \<open>
  The spec's account of one query value: one cursor, tagged with the \<open>QKey\<close> of the
  field and the value, per token whose posting list is not empty, in the order of the
  tokens.
\<close>

definition spec_cursors ::
  "(64 word \<Rightarrow> 64 word \<Rightarrow> 'k) \<Rightarrow> ('v, 'e) fieldDesc \<Rightarrow> 'k DefaultEntriesHolder \<Rightarrow> 'v \<Rightarrow>
   64 word list \<Rightarrow> 'v CursorGroup" where
  "spec_cursors NewKey field h vi ids =
     map (\<lambda>i. NewEntriesCursor (newQKey (fd_Field field) vi)
                (getEntries h (NewKey (fd_ID field) i)))
       (filter (\<lambda>i. getEntries h (NewKey (fd_ID field) i) \<noteq> []) ids)"

subsection \<open>AddFieldEID\<close>

text \<open>
  \<open>AddFieldEID\<close> tokenizes each value with the parser's \<open>ParseValue\<close> and appends the entry
  under every token; a value the parser rejects ends the call with the wrapped error, the
  appends made for the earlier values staying in the holder.
\<close>

datatype ('v, 'e) holder_error = ParserValueFail BEField 'v 'e

fun AddFieldEID_ids ::
  "(64 word \<Rightarrow> 64 word \<Rightarrow> 'k) \<Rightarrow> ('v, 'e) fieldDesc \<Rightarrow> 64 word list \<Rightarrow> EntryID \<Rightarrow>
   'k DefaultEntriesHolder \<Rightarrow> 'k DefaultEntriesHolder" where
  "AddFieldEID_ids NewKey field [] eid h = h"
| "AddFieldEID_ids NewKey field (i # ids) eid h =
     AddFieldEID_ids NewKey field ids eid (AppendEntryID (NewKey (fd_ID field) i) eid h)"

fun AddFieldEID ::
  "(64 word \<Rightarrow> 64 word \<Rightarrow> 'k) \<Rightarrow> ('v, 'e) fieldDesc \<Rightarrow> 'v list \<Rightarrow> EntryID \<Rightarrow>
   'k DefaultEntriesHolder \<Rightarrow> ('v, 'e) holder_error option \<times> 'k DefaultEntriesHolder" where
  "AddFieldEID NewKey field [] eid h = (None, h)"
| "AddFieldEID NewKey field (v # values) eid h =
     (case ParseValue field v of
        Inl err \<Rightarrow> (Some (ParserValueFail (fd_Field field) v err), h)
      | Inr ids \<Rightarrow> AddFieldEID NewKey field values eid (AddFieldEID_ids NewKey field ids eid h))"

text \<open>
  The holders a program can hold: made by \<open>NewDefaultEntriesHolder\<close> and changed only by
  the methods that write to the struct. (\<open>AddFieldEID\<close> writes through \<open>AppendEntryID\<close>
  alone and \<open>GetEntries\<close> does not write.)
\<close>

inductive reachable :: "'k DefaultEntriesHolder \<Rightarrow> bool" where
  reachable_New: "reachable NewDefaultEntriesHolder"
| reachable_Append: "reachable h \<Longrightarrow> reachable (AppendEntryID key eid h)"
| reachable_Compile: "reachable h \<Longrightarrow> reachable (CompileEntries h)"
| reachable_Debug: "reachable h \<Longrightarrow> reachable (EnableDebug d h)"

text \<open>
  What the statistics are measured against: the length of the longest posting list
  (\<open>0\<close> when there is none) and the number of entries over all posting lists.
\<close>

definition longest :: "('k \<times> Entries) list \<Rightarrow> nat" where
  "longest pl = Max (set (0 # map (length \<circ> snd) pl))"

definition total_entries :: "('k \<times> Entries) list \<Rightarrow> nat" where
  "total_entries pl = sum_list (map (length \<circ> snd) pl)"

definition holder_inv :: "'k DefaultEntriesHolder \<Rightarrow> bool" where
  "holder_inv h \<longleftrightarrow>
     distinct (map fst (plEntries h)) \<and> 0 \<le> maxLen h \<and>
     maxLen h \<le> int (longest (plEntries h)) \<and>
     (plEntries h = [] \<longrightarrow> avgLen h = 0)"

section \<open>The index builder\<close>

subsection \<open>Data\<close>

text \<open>
  \<open>ConjID\<close> and \<open>EntryID\<close> are \<open>uint64\<close> (\<open>uint64(conjID)\<close>, \<open>uint64(tx.EID)\<close>); a
  document's \<open>ID\<close> is the 32 bits of its \<open>int32\<close>. \<open>len(b.fieldsData)\<close> is a non-negative
  \<open>int\<close>, so its conversion to \<open>uint64\<close> loses nothing and \<open>FieldDesc.ID\<close> is kept as a
  natural number. The values of an expression are of an open type \<open>'v\<close>.
\<close>

type_synonym ConjID = "64 word"
type_synonym DocID = "32 word"
type_synonym bytes = "8 word list"

record FieldOption =
  Parser :: string
  Container :: string

record FieldDesc =
  ID :: nat
  Field :: BEField
  FieldOpt :: FieldOption

record 'v BooleanExpr =
  Incl :: bool
  Value :: 'v

record 'v Conjunction =
  Expressions :: "(BEField \<times> 'v BooleanExpr list) list"

record 'v Document =
  doc_ID :: DocID
  Cons :: "'v Conjunction list"

text \<open>
  Modelled from the spec: \<open>newContainer\<close> and \<open>EntriesContainer.CreateHolder\<close> are not
  among the source files. The spec makes the container of a size \<open>K\<close> a routing layer
  that hands out the holder of a field, so the holder a transaction points to is named
  by the size of the container and the descriptor it was created for.
\<close>

datatype HolderRef = CreateHolder nat FieldDesc

record 'd IndexingBETx =
  field :: FieldDesc
  holder :: HolderRef
  EID :: EntryID
  Data :: 'd

text \<open>The messages of package \<open>cache\<close>, as \<open>tryCacheIndexingTx\<close> fills them.\<close>

record FieldCache =
  Eid :: "64 word"
  fc_Data :: bytes

record IndexingTxCache =
  ConjunctionId :: "64 word"
  FieldData :: "(string \<times> FieldCache) list"

text \<open>
  Errors are values. \<open>PluginError\<close> stands for whatever a holder, a parser or the
  protobuf library reports; the others are the \<open>fmt.Errorf\<close> of the builder.
\<close>

datatype error =
    PluginError string
  | ErrConfigureTwice BEField
  | ErrNoConjunctions
  | ErrTooManyConjunctions
  | ErrIndexingField BEField error
  | ErrIndexingConj ConjID error

text \<open>\<open>Panic\<close> is a call of \<open>util.PanicIf\<close> or \<open>util.PanicIfErr\<close> that fires.\<close>

datatype 'a outcome = Panic | Done 'a

definition ErrorBadConj :: int where "ErrorBadConj = 0"
definition SkipBadConj :: int where "SkipBadConj = 1"
definition PanicBadConj :: int where "PanicBadConj = 2"

text \<open>
  Modelled from the spec: the constant \<open>HolderNameDefault\<close> is not among the source
  files; the spec names the default container \<open>"default"\<close>.
\<close>

definition HolderNameDefault :: string where
  "HolderNameDefault = ''default''"

text \<open>
  The code the builder calls that is not among the source files, as parameters:
  the size of a conjunction and the packing of identifiers (\<open>CalcConjSize\<close>,
  \<open>NewConjID\<close>, \<open>ConjID.Size\<close>, \<open>NewEntryID\<close>), the holder plug-in (\<open>IndexingBETx\<close>,
  \<open>CommitIndexingBETx\<close>, \<open>DecodeTxData\<close>), the transaction data (\<open>BetterToCache\<close>,
  \<open>Encode\<close>) and \<open>proto.Marshal\<close> / \<open>proto.Unmarshal\<close>. \<open>'h\<close> is the state of all the
  holders the index owns; committing a transaction is the only thing that changes it.
  \<open>'m\<close> is a marshalled \<open>IndexingTxCache\<close>, the \<open>[]byte\<close> the cache provider stores: the
  wire format belongs to the protobuf library.
\<close>

record ('v, 'd, 'h, 'm) env =
  CalcConjSize :: "'v Conjunction \<Rightarrow> nat"
  NewConjID :: "DocID \<Rightarrow> nat \<Rightarrow> nat \<Rightarrow> ConjID"
  Size :: "ConjID \<Rightarrow> nat"
  NewEntryID :: "ConjID \<Rightarrow> bool \<Rightarrow> EntryID"
  IndexingBETx :: "HolderRef \<Rightarrow> FieldDesc \<Rightarrow> 'v BooleanExpr \<Rightarrow> error + 'd"
  CommitIndexingBETx :: "'d IndexingBETx \<Rightarrow> 'h \<Rightarrow> error + 'h"
  DecodeTxData :: "HolderRef \<Rightarrow> bytes \<Rightarrow> error + 'd"
  BetterToCache :: "'d \<Rightarrow> bool"
  Encode :: "'d \<Rightarrow> error + bytes"
  Marshal :: "IndexingTxCache \<Rightarrow> error + 'm"
  Unmarshal :: "'m \<Rightarrow> error + IndexingTxCache"

text \<open>
  The builder with the part of its index that it writes: the wildcard entries of
  \<open>indexBase\<close> and the holders. \<open>builderCache\<close> is \<open>None\<close> for a nil provider; a provider
  is taken to be a plain store (\<open>Get\<close> returns what the last \<open>Set\<close> of the key stored).
\<close>

record ('h, 'm) IndexerBuilder =
  badConjBehavior :: int
  builderCache :: "(ConjID \<times> 'm) list option"
  fieldsData :: "(BEField \<times> FieldDesc) list"
  wildcardEntries :: Entries
  holders :: 'h

definition addWildcardEID :: "EntryID \<Rightarrow> ('h, 'm) IndexerBuilder \<Rightarrow> ('h, 'm) IndexerBuilder" where
  "addWildcardEID eid b = b\<lparr>wildcardEntries := wildcardEntries b @ [eid]\<rparr>"

subsection \<open>Configuring fields\<close>

definition configureField ::
  "BEField \<Rightarrow> FieldOption \<Rightarrow> ('h, 'm) IndexerBuilder \<Rightarrow> (error + FieldDesc) \<times> ('h, 'm) IndexerBuilder" where
  "configureField fld opt b =
     (case map_of (fieldsData b) fld of
        Some _ \<Rightarrow> (Inl (ErrConfigureTwice fld), b)
      | None \<Rightarrow>
          (let opt' = (if length (Container opt) = 0
                       then opt\<lparr>Container := HolderNameDefault\<rparr> else opt);
               fieldID = length (fieldsData b);
               desc = \<lparr>ID = fieldID, Field = fld, FieldOpt = opt'\<rparr>
           in (Inr desc, b\<lparr>fieldsData := AList.update fld desc (fieldsData b)\<rparr>)))"

definition ConfigField ::
  "BEField \<Rightarrow> FieldOption \<Rightarrow> ('h, 'm) IndexerBuilder \<Rightarrow> ('h, 'm) IndexerBuilder outcome" where
  "ConfigField fld settings b =
     (case configureField fld settings b of
        (Inl err, b') \<Rightarrow> Panic
      | (Inr desc, b') \<Rightarrow> Done b')"

definition createFieldData ::
  "BEField \<Rightarrow> ('h, 'm) IndexerBuilder \<Rightarrow> (FieldDesc \<times> ('h, 'm) IndexerBuilder) outcome" where
  "createFieldData fld b =
     (case map_of (fieldsData b) fld of
        Some desc \<Rightarrow> Done (desc, b)
      | None \<Rightarrow>
          (case configureField fld \<lparr>Parser = [], Container = HolderNameDefault\<rparr> b of
             (Inl err, b') \<Rightarrow> Panic
           | (Inr desc, b') \<Rightarrow> Done (desc, b')))"

text \<open>A run of \<open>configureField\<close> calls, each error dropped by the caller.\<close>

fun configure_all ::
  "(BEField \<times> FieldOption) list \<Rightarrow> ('h, 'm) IndexerBuilder \<Rightarrow> ('h, 'm) IndexerBuilder" where
  "configure_all [] b = b"
| "configure_all ((fld, opt) # cfgs) b = configure_all cfgs (snd (configureField fld opt b))"

subsection \<open>Indexing one conjunction\<close>

text \<open>
  \<open>indexingConjunction\<close>: the inner loop over the expressions of one field, then the
  outer loop over the fields of the conjunction (a Go map, ranged over in the order of
  the association list). The accumulator is \<open>conjIndexingTXs\<close> and \<open>needCacheCnt\<close>; the
  builder is threaded through because \<open>createFieldData\<close> may configure a field.
\<close>

fun indexingConjunction_exprs ::
  "('v, 'd, 'h, 'm) env \<Rightarrow> ConjID \<Rightarrow> BEField \<Rightarrow> 'v BooleanExpr list \<Rightarrow>
   'd IndexingBETx list \<times> nat \<Rightarrow> ('h, 'm) IndexerBuilder \<Rightarrow>
   ((error + 'd IndexingBETx list \<times> nat) \<times> ('h, 'm) IndexerBuilder) outcome" where
  "indexingConjunction_exprs env conjID fld [] acc b = Done (Inr acc, b)"
| "indexingConjunction_exprs env conjID fld (expr # exprs) acc b =
     (case createFieldData fld b of
        Panic \<Rightarrow> Panic
      | Done (desc, b1) \<Rightarrow>
          (let hld = CreateHolder (Size env conjID) desc
           in case IndexingBETx env hld desc expr of
                Inl err \<Rightarrow> Done (Inl (ErrIndexingField fld err), b1)
              | Inr txData \<Rightarrow>
                  (let entryID = NewEntryID env conjID (Incl expr);
                       needCacheCnt = (if BetterToCache env txData then snd acc + 1 else snd acc);
                       tx = \<lparr>field = desc, holder = hld, EID = entryID, Data = txData\<rparr>
                   in indexingConjunction_exprs env conjID fld exprs
                        (fst acc @ [tx], needCacheCnt) b1)))"

fun indexingConjunction_fields ::
  "('v, 'd, 'h, 'm) env \<Rightarrow> ConjID \<Rightarrow> (BEField \<times> 'v BooleanExpr list) list \<Rightarrow>
   'd IndexingBETx list \<times> nat \<Rightarrow> ('h, 'm) IndexerBuilder \<Rightarrow>
   ((error + 'd IndexingBETx list \<times> nat) \<times> ('h, 'm) IndexerBuilder) outcome" where
  "indexingConjunction_fields env conjID [] acc b = Done (Inr acc, b)"
| "indexingConjunction_fields env conjID ((fld, exprs) # rest) acc b =
     (case indexingConjunction_exprs env conjID fld exprs acc b of
        Panic \<Rightarrow> Panic
      | Done (Inl err, b1) \<Rightarrow> Done (Inl err, b1)
      | Done (Inr acc1, b1) \<Rightarrow> indexingConjunction_fields env conjID rest acc1 b1)"

definition indexingConjunction ::
  "('v, 'd, 'h, 'm) env \<Rightarrow> 'v Conjunction \<Rightarrow> ConjID \<Rightarrow> ('h, 'm) IndexerBuilder \<Rightarrow>
   ((error + 'd IndexingBETx list \<times> bool) \<times> ('h, 'm) IndexerBuilder) outcome" where
  "indexingConjunction env cnj conjID b =
     (case indexingConjunction_fields env conjID (Expressions cnj) ([], 0) b of
        Panic \<Rightarrow> Panic
      | Done (Inl err, b1) \<Rightarrow> Done (Inl err, b1)
      | Done (Inr (txs, needCacheCnt), b1) \<Rightarrow> Done (Inr (txs, needCacheCnt > 0), b1))"

subsection \<open>The transaction cache\<close>

text \<open>
  \<open>tryUseIndexingTxCache\<close> returns the nil slice (here \<open>[]\<close>: the slice is only ever
  built by \<open>append\<close>, so it is nil exactly when it is empty) when there is no provider,
  on a miss, when the bytes do not unmarshal and when one field's data does not decode.
\<close>

fun tryUseIndexingTxCache_loop ::
  "('v, 'd, 'h, 'm) env \<Rightarrow> ConjID \<Rightarrow> (string \<times> FieldCache) list \<Rightarrow> 'd IndexingBETx list \<Rightarrow>
   ('h, 'm) IndexerBuilder \<Rightarrow> ('d IndexingBETx list \<times> ('h, 'm) IndexerBuilder) outcome" where
  "tryUseIndexingTxCache_loop env conjID [] cachedIndexingTx b = Done (cachedIndexingTx, b)"
| "tryUseIndexingTxCache_loop env conjID ((fld, fieldData) # rest) cachedIndexingTx b =
     (case createFieldData fld b of
        Panic \<Rightarrow> Panic
      | Done (desc, b1) \<Rightarrow>
          (let hld = CreateHolder (Size env conjID) desc
           in case DecodeTxData env hld (fc_Data fieldData) of
                Inl err \<Rightarrow> Done ([], b1)
              | Inr txData \<Rightarrow>
                  (let tx = \<lparr>field = desc, holder = hld, EID = Eid fieldData, Data = txData\<rparr>
                   in tryUseIndexingTxCache_loop env conjID rest (cachedIndexingTx @ [tx]) b1)))"

definition tryUseIndexingTxCache ::
  "('v, 'd, 'h, 'm) env \<Rightarrow> ConjID \<Rightarrow> ('h, 'm) IndexerBuilder \<Rightarrow>
   ('d IndexingBETx list \<times> ('h, 'm) IndexerBuilder) outcome" where
  "tryUseIndexingTxCache env conjID b =
     (case builderCache b of
        None \<Rightarrow> Done ([], b)
      | Some store \<Rightarrow>
          (case map_of store conjID of
             None \<Rightarrow> Done ([], b)
           | Some data \<Rightarrow>
               (case Unmarshal env data of
                  Inl err \<Rightarrow> Done ([], b)
                | Inr txCache \<Rightarrow>
                    tryUseIndexingTxCache_loop env conjID (FieldData txCache) [] b)))"

text \<open>
  \<open>tryCacheIndexingTx\<close>: the loop fills the map \<open>FieldData\<close>, keyed by the name of the
  transaction's field; an \<open>Encode\<close> that fails ends the call with nothing stored.
\<close>

fun tryCacheIndexingTx_loop ::
  "('v, 'd, 'h, 'm) env \<Rightarrow> 'd IndexingBETx list \<Rightarrow> IndexingTxCache \<Rightarrow> IndexingTxCache option" where
  "tryCacheIndexingTx_loop env [] txCache = Some txCache"
| "tryCacheIndexingTx_loop env (tx # txs) txCache =
     (case Encode env (Data tx) of
        Inl err \<Rightarrow> None
      | Inr content \<Rightarrow>
          tryCacheIndexingTx_loop env txs
            (txCache\<lparr>FieldData :=
               AList.update (Field (field tx)) \<lparr>Eid = EID tx, fc_Data = content\<rparr>
                 (FieldData txCache)\<rparr>))"

definition tryCacheIndexingTx ::
  "('v, 'd, 'h, 'm) env \<Rightarrow> ConjID \<Rightarrow> 'd IndexingBETx list \<Rightarrow> ('h, 'm) IndexerBuilder \<Rightarrow> ('h, 'm) IndexerBuilder" where
  "tryCacheIndexingTx env conjID txs b =
     (case builderCache b of
        None \<Rightarrow> b
      | Some store \<Rightarrow>
          (case tryCacheIndexingTx_loop env txs \<lparr>ConjunctionId = conjID, FieldData = []\<rparr> of
             None \<Rightarrow> b
           | Some txCache \<Rightarrow>
               (case Marshal env txCache of
                  Inl err \<Rightarrow> b
                | Inr data \<Rightarrow> b\<lparr>builderCache := Some (AList.update conjID data store)\<rparr>)))"

subsection \<open>Building the entries of a document\<close>

fun commit_txs :: "('v, 'd, 'h, 'm) env \<Rightarrow> 'd IndexingBETx list \<Rightarrow> 'h \<Rightarrow> 'h outcome" where
  "commit_txs env [] h = Done h"
| "commit_txs env (tx # txs) h =
     (case CommitIndexingBETx env tx h of
        Inl err \<Rightarrow> Panic
      | Inr h' \<Rightarrow> commit_txs env txs h')"

text \<open>
  One turn of \<open>ConjLoop\<close>. \<open>Continue\<close> is reaching the end of the body or
  \<open>continue ConjLoop\<close>, \<open>ReturnErr\<close> the \<open>return fmt.Errorf(...)\<close>.
\<close>

datatype 's step = Continue 's | ReturnErr error 's | Panicked

definition ConjLoop_body ::
  "('v, 'd, 'h, 'm) env \<Rightarrow> DocID \<Rightarrow> nat \<Rightarrow> 'v Conjunction \<Rightarrow> ('h, 'm) IndexerBuilder \<Rightarrow>
   ('h, 'm) IndexerBuilder step" where
  "ConjLoop_body env docID idx cnj b =
     (let incSize = CalcConjSize env cnj;
          conjID = NewConjID env docID idx incSize;
          b1 = (if incSize = 0 then addWildcardEID (NewEntryID env conjID True) b else b)
      in case tryUseIndexingTxCache env conjID b1 of
           Panic \<Rightarrow> Panicked
         | Done (cached, b2) \<Rightarrow>
             (if cached = [] then
                (case indexingConjunction env cnj conjID b2 of
                   Panic \<Rightarrow> Panicked
                 | Done (Inl err, b3) \<Rightarrow>
                     (if badConjBehavior b3 = SkipBadConj then Continue b3
                      else if badConjBehavior b3 = ErrorBadConj
                      then ReturnErr (ErrIndexingConj conjID err) b3
                      else Panicked)
                 | Done (Inr (conjIndexingTxs, needCache), b3) \<Rightarrow>
                     (let b4 = (if needCache
                                then tryCacheIndexingTx env conjID conjIndexingTxs b3 else b3)
                      in case commit_txs env conjIndexingTxs (holders b4) of
                           Panic \<Rightarrow> Panicked
                         | Done h' \<Rightarrow> Continue (b4\<lparr>holders := h'\<rparr>)))
              else
                (case commit_txs env cached (holders b2) of
                   Panic \<Rightarrow> Panicked
                 | Done h' \<Rightarrow> Continue (b2\<lparr>holders := h'\<rparr>))))"

fun ConjLoop ::
  "('v, 'd, 'h, 'm) env \<Rightarrow> DocID \<Rightarrow> nat \<Rightarrow> 'v Conjunction list \<Rightarrow> ('h, 'm) IndexerBuilder \<Rightarrow>
   (error option \<times> ('h, 'm) IndexerBuilder) outcome" where
  "ConjLoop env docID idx [] b = Done (None, b)"
| "ConjLoop env docID idx (cnj # rest) b =
     (case ConjLoop_body env docID idx cnj b of
        Panicked \<Rightarrow> Panic
      | ReturnErr err b' \<Rightarrow> Done (Some err, b')
      | Continue b' \<Rightarrow> ConjLoop env docID (idx + 1) rest b')"

definition buildDocEntries ::
  "('v, 'd, 'h, 'm) env \<Rightarrow> 'v Document \<Rightarrow> ('h, 'm) IndexerBuilder \<Rightarrow>
   (error option \<times> ('h, 'm) IndexerBuilder) outcome" where
  "buildDocEntries env doc b =
     (if length (Cons doc) = 0 then Panic
      else if length (Cons doc) > 0xFF then Panic
      else ConjLoop env (doc_ID doc) 0 (Cons doc) b)"

definition validDocument :: "'v Document \<Rightarrow> error option" where
  "validDocument doc =
     (if length (Cons doc) = 0 then Some ErrNoConjunctions
      else if length (Cons doc) > 0xFF then Some ErrTooManyConjunctions
      else None)"

text \<open>\<open>AddDocument\<close> over its variadic argument; \<open>None\<close> in the list is a nil pointer.\<close>

fun AddDocument ::
  "('v, 'd, 'h, 'm) env \<Rightarrow> 'v Document option list \<Rightarrow> ('h, 'm) IndexerBuilder \<Rightarrow>
   (error option \<times> ('h, 'm) IndexerBuilder) outcome" where
  "AddDocument env [] b = Done (None, b)"
| "AddDocument env (None # docs) b = Panic"
| "AddDocument env (Some doc # docs) b =
     (case validDocument doc of
        Some err \<Rightarrow> Done (Some err, b)
      | None \<Rightarrow>
          (case buildDocEntries env doc b of
             Panic \<Rightarrow> Panic
           | Done (Some err, b') \<Rightarrow> Done (Some err, b')
           | Done (None, b') \<Rightarrow> AddDocument env docs b'))"

text \<open>
  Two builders that differ at most in \<open>fieldsData\<close>: what \<open>createFieldData\<close> may change.
\<close>

definition only_fieldsData_changed :: "('h, 'm) IndexerBuilder \<Rightarrow> ('h, 'm) IndexerBuilder \<Rightarrow> bool" where
  "only_fieldsData_changed b b' \<longleftrightarrow>
     badConjBehavior b' = badConjBehavior b \<and> builderCache b' = builderCache b \<and>
     wildcardEntries b' = wildcardEntries b \<and> holders b' = holders b"

section \<open>Example plug-ins\<close>

text \<open>
  One choice of the parameters, on which the theorems below are run. Values are lists of
  integers; the example holder takes the non-negative ones as their own tokens and rejects
  a negative one as a parser would an ill-typed value; its transaction data is the token
  bytes, which are their own encoding; the holders' state is the sequence of the
  transactions committed; a marshalled message is the message.
\<close>

text \<open>
  Modelled from the spec: \<open>CalcConjSize\<close>, \<open>NewConjID\<close>, \<open>ConjID.Size\<close> and \<open>NewEntryID\<close>
  are not among the source files. The spec has K as the number of \<open>Incl=true\<close>
  expressions, a ConjunctionID packing a 32-bit DocID, an 8-bit index and an 8-bit size,
  and an EntryID with the inclusion flag as its least significant bit.
\<close>

definition ex_CalcConjSize :: "'v Conjunction \<Rightarrow> nat" where
  "ex_CalcConjSize cnj = length (filter Incl (concat (map snd (Expressions cnj))))"

definition ex_NewConjID :: "DocID \<Rightarrow> nat \<Rightarrow> nat \<Rightarrow> ConjID" where
  "ex_NewConjID docID idx sz =
     word_of_nat (sz mod 256) * 2 ^ 40 + word_of_nat (idx mod 256) * 2 ^ 32 + ucast docID"

definition ex_Size :: "ConjID \<Rightarrow> nat" where
  "ex_Size conjID = unat (conjID div 2 ^ 40) mod 256"

definition ex_NewEntryID :: "ConjID \<Rightarrow> bool \<Rightarrow> EntryID" where
  "ex_NewEntryID conjID incl = 2 * conjID + (if incl then 1 else 0)"

definition ex_IndexingBETx :: "HolderRef \<Rightarrow> FieldDesc \<Rightarrow> int list BooleanExpr \<Rightarrow> error + bytes" where
  "ex_IndexingBETx hld desc expr =
     (if list_ex (\<lambda>v. v < 0) (Value expr) then Inl (PluginError ''negative value'')
      else Inr (map word_of_int (Value expr)))"

definition ex_env :: "(int list, bytes, bytes IndexingBETx list, IndexingTxCache) env" where
  "ex_env =
     \<lparr>CalcConjSize = ex_CalcConjSize, NewConjID = ex_NewConjID, Size = ex_Size,
      NewEntryID = ex_NewEntryID, IndexingBETx = ex_IndexingBETx,
      CommitIndexingBETx = (\<lambda>tx h. Inr (h @ [tx])),
      DecodeTxData = (\<lambda>hld bs. Inr bs),
      BetterToCache = (\<lambda>d. True),
      Encode = (\<lambda>d. Inr d),
      Marshal = (\<lambda>m. Inr m),
      Unmarshal = (\<lambda>m. Inr m)\<rparr>"

text \<open>A fresh builder: no field configured, an empty index.\<close>

definition ex_builder ::
  "int \<Rightarrow> (ConjID \<times> IndexingTxCache) list option \<Rightarrow>
   (bytes IndexingBETx list, IndexingTxCache) IndexerBuilder" where
  "ex_builder behavior cache =
     \<lparr>badConjBehavior = behavior, builderCache = cache, fieldsData = [],
      wildcardEntries = [], holders = []\<rparr>"

text \<open>\<open>NOT age IN {5}\<close>: a conjunction of size 0 with one expression.\<close>

definition ex_exclude_conj :: "int list Conjunction" where
  "ex_exclude_conj = \<lparr>Expressions = [(''age'', [\<lparr>Incl = False, Value = [5]\<rparr>])]\<rparr>"

text \<open>\<open>age IN {-1}\<close>: the example holder rejects the value.\<close>

definition ex_bad_conj :: "int list Conjunction" where
  "ex_bad_conj = \<lparr>Expressions = [(''age'', [\<lparr>Incl = True, Value = [-1]\<rparr>])]\<rparr>"

text \<open>\<open>city IN {7}\<close>.\<close>

definition ex_good_conj :: "int list Conjunction" where
  "ex_good_conj = \<lparr>Expressions = [(''city'', [\<lparr>Incl = True, Value = [7]\<rparr>])]\<rparr>"

text \<open>\<open>age IN {1} AND NOT age IN {2}\<close>: two expressions on one field.\<close>

definition ex_two_expr_conj :: "int list Conjunction" where
  "ex_two_expr_conj =
     \<lparr>Expressions = [(''age'', [\<lparr>Incl = True, Value = [1]\<rparr>, \<lparr>Incl = False, Value = [2]\<rparr>])]\<rparr>"

definition ex_holder :: "nat DefaultEntriesHolder" where
  "ex_holder = AppendEntryID 2 4 (AppendEntryID 1 3 (AppendEntryID 1 9
     (CompileEntries (AppendEntryID 1 5 NewDefaultEntriesHolder))))"

definition ex_fieldDesc :: "(int, string) fieldDesc" where
  "ex_fieldDesc =
     \<lparr>fd_ID = 0, fd_Field = ''age'',
      ParseAssign = (\<lambda>v. if v < 0 then Inl ''negative value'' else Inr [word_of_int v]),
      ParseValue = (\<lambda>v. if v < 0 then Inl ''negative value'' else Inr [word_of_int v])\<rparr>"

definition ex_pair_holder :: "(64 word \<times> 64 word) DefaultEntriesHolder" where
  "ex_pair_holder =
     AppendEntryID (0, 5) 11 (AppendEntryID (0, 5) 10 NewDefaultEntriesHolder)"

definition ex_cfgs :: "(BEField \<times> FieldOption) list" where
  "ex_cfgs = [(''age'', \<lparr>Parser = ''number'', Container = []\<rparr>),
              (''city'', \<lparr>Parser = ''str'', Container = ''ac_matcher''\<rparr>)]"

definition ex_desc :: "nat \<Rightarrow> BEField \<Rightarrow> FieldDesc" where
  "ex_desc n fld = \<lparr>ID = n, Field = fld, FieldOpt = \<lparr>Parser = [], Container = ''default''\<rparr>\<rparr>"

definition ex_city_tx :: "ConjID \<Rightarrow> bytes IndexingBETx" where
  "ex_city_tx conjID =
     \<lparr>field = ex_desc 0 ''city'', holder = CreateHolder 1 (ex_desc 0 ''city''),
      EID = ex_NewEntryID conjID True, Data = [7]\<rparr>"

definition ex_doc1 :: "int list Document" where
  "ex_doc1 = \<lparr>doc_ID = 1, Cons = [ex_good_conj]\<rparr>"

definition ex_doc2 :: "int list Document" where
  "ex_doc2 = \<lparr>doc_ID = 2, Cons = [ex_good_conj, ex_bad_conj, ex_good_conj]\<rparr>"

definition ex_state ::
  "int \<Rightarrow> (BEField \<times> FieldDesc) list \<Rightarrow> bytes IndexingBETx list \<Rightarrow>
   (bytes IndexingBETx list, IndexingTxCache) IndexerBuilder" where
  "ex_state behavior fds txs =
     \<lparr>badConjBehavior = behavior, builderCache = None, fieldsData = fds,
      wildcardEntries = [], holders = txs\<rparr>"

text \<open>A document whose one conjunction is of size 0, and the transaction of field \<open>age\<close>.\<close>

definition ex_doc0 :: "int list Document" where
  "ex_doc0 = \<lparr>doc_ID = 1, Cons = [ex_exclude_conj]\<rparr>"

definition ex_age_tx :: "nat \<Rightarrow> ConjID \<Rightarrow> bool \<Rightarrow> bytes \<Rightarrow> bytes IndexingBETx" where
  "ex_age_tx k conjID incl d =
     \<lparr>field = ex_desc 0 ''age'', holder = CreateHolder k (ex_desc 0 ''age''),
      EID = ex_NewEntryID conjID incl, Data = d\<rparr>"

definition ex_bad_doc :: "int list Document" where
  "ex_bad_doc = \<lparr>doc_ID = 1, Cons = [ex_bad_conj]\<rparr>"

definition ex_big_doc :: "int list Document" where
  "ex_big_doc = \<lparr>doc_ID = 9, Cons = replicate 256 ex_good_conj\<rparr>"

definition ex_doc3 :: "int list Document" where
  "ex_doc3 = \<lparr>doc_ID = 3, Cons = [ex_two_expr_conj]\<rparr>"

section \<open>Properties of the default entries holder\<close>

subsection \<open>AppendEntryID\<close>

lemma AppendEntryID_plEntries:
  "plEntries (AppendEntryID key eid h) =
     AList.update key (getEntries h key @ [eid]) (plEntries h)"
  by (simp add: AppendEntryID_def getEntries_def split: option.splits)

lemma AppendEntryID_other:
  "maxLen (AppendEntryID key eid h) = maxLen h"
  "avgLen (AppendEntryID key eid h) = avgLen h"
  "debug (AppendEntryID key eid h) = debug h"
  by (simp_all add: AppendEntryID_def split: option.splits)

text \<open>
  C2, as the code has it: \<open>AppendEntryID\<close> changes the posting list of its key alone.
  For a key that is absent the list stored is the single-element \<open>[eid]\<close> (the
  \<open>Entries{id}\<close> stored first is overwritten by the nil slice extended by \<open>id\<close>, so the
  EntryID is there once); for a key that is present it is the old list with one copy of
  the EntryID appended at the end.
\<close>

theorem AppendEntryID_stores:
  "map_of (plEntries (AppendEntryID key eid h)) =
     (map_of (plEntries h))(key \<mapsto>
        (case map_of (plEntries h) key of None \<Rightarrow> [eid] | Some es \<Rightarrow> es @ [eid]))"
  by (simp add: AppendEntryID_plEntries update_conv' getEntries_def split: option.splits)

text \<open>
  C2, the claim as stated fails: after \<open>AppendEntryID\<close> with key \<open>1\<close> and EntryID \<open>7\<close> on the
  new holder, where the key is absent, the list stored under the key holds the EntryID
  once, not twice.
\<close>

theorem AppendEntryID_absent_once:
  "map_of (plEntries (NewDefaultEntriesHolder :: nat DefaultEntriesHolder)) 1 = None \<and>
   map_of (plEntries (AppendEntryID (1::nat) 7 NewDefaultEntriesHolder)) 1 = Some [7] \<and>
   count_list (getEntries (AppendEntryID (1::nat) 7 NewDefaultEntriesHolder) 1) 7 = 1"
  by (simp add: AppendEntryID_def getEntries_def NewDefaultEntriesHolder_def)

text \<open>
  C2, the amended statement at work: a first append stores \<open>[10]\<close>, a second one on
  the same key appends one copy at the end.
\<close>

theorem AppendEntryID_stores_witness:
  "map_of (plEntries (AppendEntryID (0, 5) 10 (NewDefaultEntriesHolder ::
      (64 word \<times> 64 word) DefaultEntriesHolder))) (0, 5) = Some [10] \<and>
   map_of (plEntries ex_pair_holder) (0, 5) = Some [10, 11]"
proof -
  let ?h0 = "NewDefaultEntriesHolder :: (64 word \<times> 64 word) DefaultEntriesHolder"
  have 1: "map_of (plEntries (AppendEntryID (0, 5) 10 ?h0)) (0, 5) = Some [10]"
    using fun_cong [OF AppendEntryID_stores [of "(0, 5)" 10 ?h0], of "(0, 5)"]
    by (simp add: NewDefaultEntriesHolder_def)
  have 2: "map_of (plEntries (AppendEntryID (0, 5) 11 (AppendEntryID (0, 5) 10 ?h0))) (0, 5) =
           Some [10, 11]"
    using fun_cong [OF AppendEntryID_stores [of "(0, 5)" 11 "AppendEntryID (0, 5) 10 ?h0"],
        of "(0, 5)"] 1
    by simp
  show ?thesis using 1 2 by (simp add: ex_pair_holder_def)
qed

subsection \<open>CompileEntries\<close>

lemma longest_Nil [simp]: "longest [] = 0"
  by (simp add: longest_def)

lemma longest_Cons [simp]: "longest ((k, P) # pl) = max (length P) (longest pl)"
proof -
  have "Max (insert 0 (insert (length P) (set (map (length \<circ> snd) pl)))) =
        Max (insert (length P) (insert 0 (set (map (length \<circ> snd) pl))))"
    by (simp add: insert_commute)
  also have "\<dots> = max (length P) (Max (insert 0 (set (map (length \<circ> snd) pl))))"
    by (rule Max_insert) simp_all
  finally show ?thesis by (simp add: longest_def)
qed

lemma longest_update:
  "length (case map_of pl k of None \<Rightarrow> [] | Some es \<Rightarrow> es) \<le> length v \<Longrightarrow>
   longest pl \<le> longest (AList.update k v pl)"
  by (induction pl) (auto split: if_splits)

lemma length_sort_Entries [simp]: "length (sort_Entries P) = length P"
  by (simp add: sort_Entries_def)

text \<open>What the loop of \<open>makeEntriesSorted\<close> returns.\<close>

lemma makeEntriesSorted_loop_eq:
  "makeEntriesSorted_loop pl mx tot = (pl', m, t) \<Longrightarrow> 0 \<le> mx \<Longrightarrow>
     pl' = map (\<lambda>(k, P). (k, sort_Entries P)) pl \<and>
     m = max mx (int (longest pl)) \<and>
     t = tot + int (total_entries pl)"
proof (induction pl arbitrary: mx tot pl' m t)
  case Nil
  then show ?case by (auto simp: total_entries_def)
next
  case (Cons a pl)
  obtain k P where a: "a = (k, P)" by (cases a)
  let ?mx = "if mx < int (length P) then int (length P) else mx"
  obtain r m' t' where
    rec: "makeEntriesSorted_loop pl ?mx (tot + int (length P)) = (r, m', t')"
    by (metis prod_cases3)
  have nonneg: "0 \<le> ?mx" using Cons.prems(2) by simp
  note IH = Cons.IH [OF rec nonneg]
  have res: "pl' = (k, sort_Entries P) # r" "m = m'" "t = t'"
    using Cons.prems(1) rec by (simp_all add: a Let_def cong: if_cong)
  have tot: "total_entries (a # pl) = length P + total_entries pl"
    by (simp add: a total_entries_def)
  show ?case using IH res tot by (simp add: a) linarith
qed

lemma longest_sorted [simp]: "longest (map (\<lambda>(k, P). (k, sort_Entries P)) pl) = longest pl"
  by (induction pl) (auto simp: sort_Entries_def)

lemma total_sorted [simp]:
  "total_entries (map (\<lambda>(k, P). (k, sort_Entries P)) pl) = total_entries pl"
  by (induction pl) (auto simp: sort_Entries_def total_entries_def)

lemma map_fst_sorted [simp]:
  "map fst (map (\<lambda>(k, P). (k, sort_Entries P)) pl) = map fst pl"
  by (induction pl) auto

lemma distinct_sorted:
  "distinct (map fst pl) \<Longrightarrow> distinct (map fst (map (\<lambda>(k, P). (k, sort_Entries P)) pl))"
  by (simp only: map_fst_sorted)

lemma CompileEntries_eq:
  "0 \<le> maxLen h \<Longrightarrow> CompileEntries h =
     h\<lparr>plEntries := map (\<lambda>(k, P). (k, sort_Entries P)) (plEntries h),
       maxLen := max (maxLen h) (int (longest (plEntries h))),
       avgLen := (if plEntries h = [] then avgLen h
                  else int (total_entries (plEntries h)) div int (length (plEntries h)))\<rparr>"
proof -
  obtain pl' m t where l: "makeEntriesSorted_loop (plEntries h) (maxLen h) 0 = (pl', m, t)"
    by (cases "makeEntriesSorted_loop (plEntries h) (maxLen h) 0") auto
  assume "0 \<le> maxLen h"
  from makeEntriesSorted_loop_eq [OF l this] l show ?thesis
    by (simp add: CompileEntries_def makeEntriesSorted_def Let_def)
qed

text \<open>
  The invariant of the holders a program can hold: the keys of the map are distinct,
  \<open>maxLen\<close> is not above the longest posting list (lists only grow), and \<open>avgLen\<close> is still
  \<open>0\<close> while the map is empty (keys are never removed).
\<close>

lemma holder_inv_New: "holder_inv NewDefaultEntriesHolder"
  by (simp add: holder_inv_def NewDefaultEntriesHolder_def)

lemma holder_inv_Append: "holder_inv h \<Longrightarrow> holder_inv (AppendEntryID key eid h)"
  unfolding holder_inv_def AppendEntryID_plEntries AppendEntryID_other
  using longest_update [of "plEntries h" key "getEntries h key @ [eid]"]
  by (auto simp: distinct_update getEntries_def split: option.splits)

lemma holder_inv_Compile: "holder_inv h \<Longrightarrow> holder_inv (CompileEntries h)"
  using distinct_sorted [of "plEntries h"]
  by (auto simp: holder_inv_def CompileEntries_eq simp del: map_map)

lemma holder_inv_Debug: "holder_inv h \<Longrightarrow> holder_inv (EnableDebug d h)"
  by (simp add: holder_inv_def EnableDebug_def)

lemma reachable_inv: "reachable h \<Longrightarrow> holder_inv h"
  by (induction rule: reachable.induct)
     (simp_all add: holder_inv_New holder_inv_Append holder_inv_Compile holder_inv_Debug)

lemma AddFieldEID_ids_reachable:
  "reachable h \<Longrightarrow> reachable (AddFieldEID_ids NewKey fd ids eid h)"
  by (induction ids arbitrary: h) (auto intro: reachable.intros)

lemma AddFieldEID_reachable:
  "reachable h \<Longrightarrow> reachable (snd (AddFieldEID NewKey fd vs eid h))"
  by (induction vs arbitrary: h) (auto intro: AddFieldEID_ids_reachable split: sum.splits)

text \<open>
  C3: after \<open>CompileEntries\<close> on a holder a program can hold, every posting list is
  ascending (\<open>P[i] \<le> P[i+1]\<close>), \<open>maxLen\<close> is the length of the longest posting list, and
  \<open>avgLen\<close> is the integer quotient of the number of entries by the number of keys when
  there is a key, and \<open>0\<close> when there is none. The keys are those from before, each with
  a rearrangement of its list.
\<close>

theorem CompileEntries_sorted_stats:
  assumes "reachable h"
  shows "(\<forall>(k, P) \<in> set (plEntries (CompileEntries h)).
            \<forall>i. i + 1 < length P \<longrightarrow> P ! i \<le> P ! (i + 1)) \<and>
         maxLen (CompileEntries h) = int (longest (plEntries (CompileEntries h))) \<and>
         avgLen (CompileEntries h) =
           (if card (fst ` set (plEntries (CompileEntries h))) > 0
            then int (total_entries (plEntries (CompileEntries h)))
                   div int (card (fst ` set (plEntries (CompileEntries h))))
            else 0) \<and>
         map (\<lambda>(k, P). (k, mset P)) (plEntries (CompileEntries h)) =
           map (\<lambda>(k, P). (k, mset P)) (plEntries h)"
proof -
  have inv: "holder_inv h" using assms by (rule reachable_inv)
  let ?pl = "map (\<lambda>(k, P). (k, sort_Entries P)) (plEntries h)"
  have m0: "0 \<le> maxLen h" using inv by (simp add: holder_inv_def)
  have pl: "plEntries (CompileEntries h) = ?pl" by (simp add: CompileEntries_eq [OF m0])
  have fst: "map fst ?pl = map fst (plEntries h)" by (rule map_fst_sorted)
  have d: "distinct (map fst (plEntries h))" using inv by (simp add: holder_inv_def)
  have card: "card (fst ` set ?pl) = length (plEntries h)"
    using distinct_card [OF d] fst by (metis length_map set_map)
  have s: "\<forall>(k, P) \<in> set ?pl. \<forall>i. i + 1 < length P \<longrightarrow> P ! i \<le> P ! (i + 1)"
    by (auto simp: sort_Entries_def intro: sorted_nth_mono)
  have m: "maxLen (CompileEntries h) = int (longest ?pl)"
    using inv by (simp add: CompileEntries_eq [OF m0] holder_inv_def)
  have a: "avgLen (CompileEntries h) =
           (if card (fst ` set ?pl) > 0
            then int (total_entries ?pl) div int (card (fst ` set ?pl)) else 0)"
    unfolding card using inv by (auto simp add: CompileEntries_eq [OF m0] holder_inv_def)
  have p: "map (\<lambda>(k, P). (k, mset P)) ?pl = map (\<lambda>(k, P). (k, mset P)) (plEntries h)"
    by (simp add: o_def case_prod_unfold sort_Entries_def)
  show ?thesis unfolding pl using s m a p by blast
qed

lemma ex_holder_reachable: "reachable ex_holder"
  unfolding ex_holder_def by (intro reachable.intros)

lemma ex_holder_compiled:
  "plEntries (CompileEntries ex_holder) = [(1, [3, 5, 9]), (2, [4])]"
  by (simp add: ex_holder_def CompileEntries_def makeEntriesSorted_def AppendEntryID_def
      NewDefaultEntriesHolder_def sort_Entries_def Let_def)

text \<open>
  C3 on a holder with the lists \<open>[5, 9, 3]\<close> and \<open>[4]\<close>, the first of them compiled once
  before it grew: the lists come out ascending, \<open>maxLen\<close> is \<open>3\<close> and \<open>avgLen\<close> is
  \<open>4 div 2\<close>.
\<close>

theorem CompileEntries_sorted_stats_witness:
  "reachable ex_holder \<and>
   plEntries (CompileEntries ex_holder) = [(1, [3, 5, 9]), (2, [4])] \<and>
   maxLen (CompileEntries ex_holder) = 3 \<and> avgLen (CompileEntries ex_holder) = 2"
  using CompileEntries_sorted_stats [OF ex_holder_reachable] ex_holder_reachable
  by (simp add: ex_holder_compiled total_entries_def)

subsection \<open>GetEntries\<close>

lemma GetEntries_ids_eq:
  "GetEntries_ids NewKey fd vi ids r h = (r @ spec_cursors NewKey fd h vi ids, h)"
  by (induction ids arbitrary: r) (simp_all add: spec_cursors_def Let_def)

lemma GetEntries_loop_ok:
  "\<forall>vi \<in> set assigns. \<not> isl (ParseAssign fd vi) \<Longrightarrow>
   fst (GetEntries_loop NewKey fd assigns r h) =
     Inr (r @ concat (map (\<lambda>vi. spec_cursors NewKey fd h vi (projr (ParseAssign fd vi)))
                        assigns))"
  by (induction assigns arbitrary: r) (auto simp: GetEntries_ids_eq split: sum.splits)

lemma GetEntries_loop_err:
  "\<forall>v \<in> set pre. \<not> isl (ParseAssign fd v) \<Longrightarrow> ParseAssign fd vi = Inl e \<Longrightarrow>
   fst (GetEntries_loop NewKey fd (pre @ vi # post) r h) = Inl e"
  by (induction pre arbitrary: r) (auto simp: GetEntries_ids_eq split: sum.splits)

text \<open>
  C6: when \<open>ParseAssign\<close> accepts every query value, \<open>GetEntries\<close> returns, value after
  value, one cursor tagged \<open>QKey(field, value)\<close> per token of the value whose posting list
  is not empty (absent keys and empty lists give none); when \<open>ParseAssign\<close> rejects a
  value, the first such value's error is returned and no cursor group with it.
\<close>

theorem GetEntries_cursors:
  "((\<forall>vi \<in> set assigns. \<not> isl (ParseAssign fd vi)) \<longrightarrow>
      fst (GetEntries NewKey fd assigns h) =
        Inr (concat (map (\<lambda>vi. spec_cursors NewKey fd h vi (projr (ParseAssign fd vi)))
                       assigns))) \<and>
   (\<forall>pre vi post e.
      assigns = pre @ vi # post \<and> (\<forall>v \<in> set pre. \<not> isl (ParseAssign fd v)) \<and>
      ParseAssign fd vi = Inl e \<longrightarrow>
      fst (GetEntries NewKey fd assigns h) = Inl e)"
  using GetEntries_loop_ok [of assigns fd NewKey "[]" h]
  by (auto simp: GetEntries_def GetEntries_loop_err)

lemma ex_pair_holder_entries:
  "getEntries ex_pair_holder (0, 5) = [10, 11]" "getEntries ex_pair_holder (0, 6) = []"
  by (simp_all add: ex_pair_holder_def AppendEntryID_def getEntries_def
      NewDefaultEntriesHolder_def)

text \<open>
  C6 on a holder with the one posting list \<open>[10, 11]\<close> under token \<open>5\<close> of field \<open>0\<close>: the
  query \<open>[5, 6]\<close> gives the one cursor of \<open>5\<close>, and the query \<open>[5, -1, 6]\<close> the error of
  \<open>-1\<close> alone.
\<close>

theorem GetEntries_cursors_witness:
  "fst (GetEntries Pair ex_fieldDesc [5, 6] ex_pair_holder) =
     Inr [NewEntriesCursor (newQKey ''age'' 5) [10, 11]] \<and>
   fst (GetEntries Pair ex_fieldDesc [5, - 1, 6] ex_pair_holder) = Inl ''negative value''"
proof -
  have ok: "\<forall>vi \<in> set [5, 6]. \<not> isl (ParseAssign ex_fieldDesc vi)"
    by (simp add: ex_fieldDesc_def)
  have 1: "fst (GetEntries Pair ex_fieldDesc [5, 6] ex_pair_holder) =
     Inr [NewEntriesCursor (newQKey ''age'' 5) [10, 11]]"
    using GetEntries_cursors [of "[5, 6]" ex_fieldDesc Pair ex_pair_holder] ok
    by (simp add: spec_cursors_def ex_pair_holder_entries ex_fieldDesc_def)
  have 2: "fst (GetEntries Pair ex_fieldDesc [5, - 1, 6] ex_pair_holder) = Inl ''negative value''"
    using GetEntries_cursors [of "[5, - 1, 6]" ex_fieldDesc Pair ex_pair_holder, THEN conjunct2,
        rule_format, of "[5]" "- 1" "[6]" "''negative value''"]
    by (simp add: ex_fieldDesc_def)
  show ?thesis using 1 2 by simp
qed

lemma GetEntries_ids_snd: "snd (GetEntries_ids NewKey fd vi ids r h) = h"
  by (induction ids arbitrary: r) (simp_all add: Let_def)

lemma GetEntries_loop_snd: "snd (GetEntries_loop NewKey fd assigns r h) = h"
proof (induction assigns arbitrary: r)
  case Nil
  show ?case by simp
next
  case (Cons vi assigns)
  show ?case
  proof (cases "ParseAssign fd vi")
    case (Inl e)
    then show ?thesis by simp
  next
    case (Inr ids)
    obtain r' h' where g: "GetEntries_ids NewKey fd vi ids r h = (r', h')"
      by (cases "GetEntries_ids NewKey fd vi ids r h")
    have "h' = h" using GetEntries_ids_snd [of NewKey fd vi ids r h] g by simp
    then show ?thesis using Inr g Cons.IH [of r'] by simp
  qed
qed

text \<open>
  C9: the holder that \<open>GetEntries\<close> leaves behind is the holder it was called on, with
  the same \<open>plEntries\<close>, \<open>maxLen\<close>, \<open>avgLen\<close> and \<open>debug\<close>, whether it returns cursors or an
  error.
\<close>

theorem GetEntries_frame: "snd (GetEntries NewKey fd assigns h) = h"
  by (simp add: GetEntries_def GetEntries_loop_snd)

section \<open>Properties of the index builder\<close>

subsection \<open>configureField\<close>

lemma update_absent: "map_of al k = None \<Longrightarrow> AList.update k v al = al @ [(k, v)]"
  by (induction al) (auto split: if_splits)

lemma configureField_new:
  "map_of (fieldsData b) fld = None \<Longrightarrow>
   configureField fld opt b =
     (Inr \<lparr>ID = length (fieldsData b), Field = fld,
           FieldOpt = opt\<lparr>Container := (if Container opt = [] then HolderNameDefault
                                          else Container opt)\<rparr>\<rparr>,
      b\<lparr>fieldsData := fieldsData b @
           [(fld, \<lparr>ID = length (fieldsData b), Field = fld,
                   FieldOpt = opt\<lparr>Container := (if Container opt = [] then HolderNameDefault
                                                  else Container opt)\<rparr>\<rparr>)]\<rparr>)"
  by (simp add: configureField_def Let_def update_absent)

lemma configureField_twice:
  "map_of (fieldsData b) fld = Some d \<Longrightarrow>
   configureField fld opt b = (Inl (ErrConfigureTwice fld), b)"
  by (simp add: configureField_def)

lemma configure_all_fields:
  "distinct (map fst cfgs) \<Longrightarrow> set (map fst cfgs) \<inter> fst ` set (fieldsData b) = {} \<Longrightarrow>
   map fst (fieldsData (configure_all cfgs b)) = map fst (fieldsData b) @ map fst cfgs \<and>
   map (ID \<circ> snd) (fieldsData (configure_all cfgs b)) =
     map (ID \<circ> snd) (fieldsData b) @
       [length (fieldsData b) ..< length (fieldsData b) + length cfgs]"
proof (induction cfgs arbitrary: b)
  case Nil
  then show ?case by simp
next
  case (Cons c cfgs)
  obtain fld opt where c: "c = (fld, opt)" by (cases c)
  have absent: "map_of (fieldsData b) fld = None"
    using Cons.prems(2) by (auto simp: c map_of_eq_None_iff)
  let ?b = "snd (configureField fld opt b)"
  have fd: "map fst (fieldsData ?b) = map fst (fieldsData b) @ [fld]"
    "map (ID \<circ> snd) (fieldsData ?b) = map (ID \<circ> snd) (fieldsData b) @ [length (fieldsData b)]"
    "length (fieldsData ?b) = Suc (length (fieldsData b))"
    by (simp_all add: configureField_new [OF absent])
  have d: "distinct (map fst cfgs)" using Cons.prems(1) by simp
  have disj: "set (map fst cfgs) \<inter> fst ` set (fieldsData ?b) = {}"
  proof -
    have "fst ` set (fieldsData ?b) = set (map fst (fieldsData ?b))" by simp
    also have "\<dots> = insert fld (fst ` set (fieldsData b))" unfolding fd(1) by simp
    finally show ?thesis using Cons.prems by (auto simp: c)
  qed
  have up: "[length (fieldsData b) ..< length (fieldsData b) + length (c # cfgs)] =
            length (fieldsData b) # [Suc (length (fieldsData b)) ..<
                                     Suc (length (fieldsData b)) + length cfgs]"
    by (simp add: upt_conv_Cons del: upt_Suc)
  have step: "configure_all (c # cfgs) b = configure_all cfgs ?b" by (simp add: c)
  from Cons.IH [OF d disj] show ?case
    unfolding step up fd by (simp add: c del: upt_Suc)
qed

text \<open>
  C8: \<open>configureField\<close> on a field that is already configured returns an error and
  leaves the builder as it was; on a new field it returns a descriptor whose ID is the
  number of fields configured before, with the container of the option, or the default
  holder name when the option's container is empty, and appends it to \<open>fieldsData\<close>. So
  distinct fields configured in a row on a builder without fields get the IDs
  \<open>0, 1, 2, ...\<close> in the order of configuration.
\<close>

theorem configureField_dense:
  "(case configureField fld opt b of
      (Inl e, b') \<Rightarrow> map_of (fieldsData b) fld \<noteq> None \<and> e = ErrConfigureTwice fld \<and> b' = b
    | (Inr desc, b') \<Rightarrow>
        map_of (fieldsData b) fld = None \<and>
        ID desc = length (fieldsData b) \<and> Field desc = fld \<and>
        Container (FieldOpt desc) =
          (if Container opt = [] then HolderNameDefault else Container opt) \<and>
        Parser (FieldOpt desc) = Parser opt \<and>
        b' = b\<lparr>fieldsData := fieldsData b @ [(fld, desc)]\<rparr>) \<and>
   (fieldsData b = [] \<and> distinct (map fst cfgs) \<longrightarrow>
      map fst (fieldsData (configure_all cfgs b)) = map fst cfgs \<and>
      map (ID \<circ> snd) (fieldsData (configure_all cfgs b)) = [0 ..< length cfgs])"
proof -
  have one: "case configureField fld opt b of
      (Inl e, b') \<Rightarrow> map_of (fieldsData b) fld \<noteq> None \<and> e = ErrConfigureTwice fld \<and> b' = b
    | (Inr desc, b') \<Rightarrow>
        map_of (fieldsData b) fld = None \<and>
        ID desc = length (fieldsData b) \<and> Field desc = fld \<and>
        Container (FieldOpt desc) =
          (if Container opt = [] then HolderNameDefault else Container opt) \<and>
        Parser (FieldOpt desc) = Parser opt \<and>
        b' = b\<lparr>fieldsData := fieldsData b @ [(fld, desc)]\<rparr>"
  proof (cases "map_of (fieldsData b) fld")
    case None
    show ?thesis by (simp add: configureField_new [OF None] None)
  next
    case (Some d)
    show ?thesis by (simp add: configureField_twice [OF Some] Some)
  qed
  have many: "fieldsData b = [] \<and> distinct (map fst cfgs) \<longrightarrow>
      map fst (fieldsData (configure_all cfgs b)) = map fst cfgs \<and>
      map (ID \<circ> snd) (fieldsData (configure_all cfgs b)) = [0 ..< length cfgs]"
    using configure_all_fields [of cfgs b] by auto
  show ?thesis using one many by blast
qed

lemma ex_configured:
  "fieldsData (configure_all ex_cfgs (ex_builder 0 None)) =
     [(''age'', \<lparr>ID = 0, Field = ''age'',
                 FieldOpt = \<lparr>Parser = ''number'', Container = ''default''\<rparr>\<rparr>),
      (''city'', \<lparr>ID = 1, Field = ''city'',
                  FieldOpt = \<lparr>Parser = ''str'', Container = ''ac_matcher''\<rparr>\<rparr>)]"
  by code_simp

text \<open>
  C8 on a builder configured with \<open>age\<close> (no container given) and \<open>city\<close>: they get the
  IDs \<open>0\<close> and \<open>1\<close>, a second configuration of \<open>age\<close> is an error that changes nothing,
  and a third field gets the ID \<open>2\<close> and the default container.
\<close>

theorem configureField_dense_witness:
  "map fst (fieldsData (configure_all ex_cfgs (ex_builder 0 None))) = [''age'', ''city''] \<and>
   map (ID \<circ> snd) (fieldsData (configure_all ex_cfgs (ex_builder 0 None))) = [0, 1] \<and>
   configureField ''age'' \<lparr>Parser = ''number'', Container = []\<rparr>
       (configure_all ex_cfgs (ex_builder 0 None)) =
     (Inl (ErrConfigureTwice ''age''), configure_all ex_cfgs (ex_builder 0 None)) \<and>
   fst (configureField ''tag'' \<lparr>Parser = ''str'', Container = []\<rparr>
       (configure_all ex_cfgs (ex_builder 0 None))) =
     Inr \<lparr>ID = 2, Field = ''tag'',
          FieldOpt = \<lparr>Parser = ''str'', Container = ''default''\<rparr>\<rparr>"
proof -
  let ?b = "configure_all ex_cfgs (ex_builder 0 None)"
  have e: "fieldsData (ex_builder 0 None) = []" "distinct (map fst ex_cfgs)"
    by (simp_all add: ex_builder_def ex_cfgs_def)
  have many: "map fst (fieldsData ?b) = [''age'', ''city''] \<and>
              map (ID \<circ> snd) (fieldsData ?b) = [0, 1]"
    using configureField_dense [where fld = "''age''" and b = "ex_builder 0 None"
        and opt = "\<lparr>Parser = ''number'', Container = []\<rparr>" and cfgs = ex_cfgs, THEN conjunct2] e
    by (simp add: ex_cfgs_def upt_rec)
  have twice: "configureField ''age'' \<lparr>Parser = ''number'', Container = []\<rparr> ?b =
     (Inl (ErrConfigureTwice ''age''), ?b)"
    using configureField_dense [where fld = "''age''" and b = ?b
        and opt = "\<lparr>Parser = ''number'', Container = []\<rparr>" and cfgs = "[]", THEN conjunct1]
    by (cases "configureField ''age'' \<lparr>Parser = ''number'', Container = []\<rparr> ?b")
       (auto simp: ex_configured split: sum.splits)
  have new: "fst (configureField ''tag'' \<lparr>Parser = ''str'', Container = []\<rparr> ?b) =
     Inr \<lparr>ID = 2, Field = ''tag'',
          FieldOpt = \<lparr>Parser = ''str'', Container = ''default''\<rparr>\<rparr>"
    using configureField_dense [where fld = "''tag''" and b = ?b
        and opt = "\<lparr>Parser = ''str'', Container = []\<rparr>" and cfgs = "[]", THEN conjunct1]
    by (cases "configureField ''tag'' \<lparr>Parser = ''str'', Container = []\<rparr> ?b")
       (auto simp: ex_configured HolderNameDefault_def split: sum.splits)
  show ?thesis using many twice new by simp
qed

subsection \<open>What indexing and the cache leave unchanged\<close>

lemma only_fieldsData_refl [simp]: "only_fieldsData_changed b b"
  by (simp add: only_fieldsData_changed_def)

lemma only_fieldsData_trans:
  "only_fieldsData_changed b b1 \<Longrightarrow> only_fieldsData_changed b1 b2 \<Longrightarrow> only_fieldsData_changed b b2"
  by (simp add: only_fieldsData_changed_def)

lemma configureField_frame: "only_fieldsData_changed b (snd (configureField fld opt b))"
  by (simp add: configureField_def only_fieldsData_changed_def Let_def split: option.splits)

lemma createFieldData_Done:
  "\<exists>desc b'. createFieldData fld b = Done (desc, b') \<and> only_fieldsData_changed b b'"
proof (cases "map_of (fieldsData b) fld")
  case None
  then show ?thesis
    by (simp add: createFieldData_def configureField_def Let_def only_fieldsData_changed_def)
next
  case (Some d)
  then show ?thesis by (simp add: createFieldData_def)
qed

lemma indexingConjunction_exprs_Done:
  "\<exists>r b'. indexingConjunction_exprs env conjID fld exprs acc b = Done (r, b') \<and>
     only_fieldsData_changed b b' \<and>
     (\<forall>txs n. r = Inr (txs, n) \<longrightarrow>
        map EID txs = map EID (fst acc) @ map (\<lambda>e. NewEntryID env conjID (Incl e)) exprs)"
proof (induction exprs arbitrary: acc b)
  case Nil
  show ?case by (cases acc) simp
next
  case (Cons expr exprs)
  obtain desc b1 where c: "createFieldData fld b = Done (desc, b1)"
    and f1: "only_fieldsData_changed b b1"
    using createFieldData_Done by blast
  show ?case
  proof (cases "IndexingBETx env (CreateHolder (Size env conjID) desc) desc expr")
    case (Inl err)
    then show ?thesis using c f1 by (simp add: Let_def)
  next
    case (Inr txData)
    let ?acc = "(fst acc @ [\<lparr>field = desc, holder = CreateHolder (Size env conjID) desc,
                   EID = NewEntryID env conjID (Incl expr), Data = txData\<rparr>],
                 if BetterToCache env txData then snd acc + 1 else snd acc)"
    from Cons.IH [of ?acc b1] obtain r b' where
      rec: "indexingConjunction_exprs env conjID fld exprs ?acc b1 = Done (r, b')"
      and f2: "only_fieldsData_changed b1 b'"
      and t: "\<forall>txs n. r = Inr (txs, n) \<longrightarrow>
        map EID txs = map EID (fst ?acc) @ map (\<lambda>e. NewEntryID env conjID (Incl e)) exprs"
      by blast
    have "indexingConjunction_exprs env conjID fld (expr # exprs) acc b = Done (r, b')"
      using c Inr rec by (simp add: Let_def)
    moreover have "only_fieldsData_changed b b'" using f1 f2 by (rule only_fieldsData_trans)
    ultimately show ?thesis using t by simp
  qed
qed

lemma indexingConjunction_fields_Done:
  "\<exists>r b'. indexingConjunction_fields env conjID fes acc b = Done (r, b') \<and>
     only_fieldsData_changed b b' \<and>
     (\<forall>txs n. r = Inr (txs, n) \<longrightarrow>
        map EID txs = map EID (fst acc) @
          map (\<lambda>e. NewEntryID env conjID (Incl e)) (concat (map snd fes)))"
proof (induction fes arbitrary: acc b)
  case Nil
  show ?case by (cases acc) simp
next
  case (Cons fe fes)
  obtain fld exprs where fe: "fe = (fld, exprs)" by (cases fe)
  from indexingConjunction_exprs_Done [of env conjID fld exprs acc b] obtain r1 b1 where
    e: "indexingConjunction_exprs env conjID fld exprs acc b = Done (r1, b1)"
    and f1: "only_fieldsData_changed b b1"
    and t1: "\<forall>txs n. r1 = Inr (txs, n) \<longrightarrow>
        map EID txs = map EID (fst acc) @ map (\<lambda>e. NewEntryID env conjID (Incl e)) exprs"
    by blast
  show ?case
  proof (cases r1)
    case (Inl err)
    then show ?thesis using e f1 by (simp add: fe)
  next
    case (Inr acc1)
    from Cons.IH [of acc1 b1] obtain r b' where
      rec: "indexingConjunction_fields env conjID fes acc1 b1 = Done (r, b')"
      and f2: "only_fieldsData_changed b1 b'"
      and t: "\<forall>txs n. r = Inr (txs, n) \<longrightarrow>
        map EID txs = map EID (fst acc1) @
          map (\<lambda>e. NewEntryID env conjID (Incl e)) (concat (map snd fes))"
      by blast
    have a1: "map EID (fst acc1) =
              map EID (fst acc) @ map (\<lambda>e. NewEntryID env conjID (Incl e)) exprs"
      using t1 Inr by (cases acc1) simp
    have "indexingConjunction_fields env conjID (fe # fes) acc b = Done (r, b')"
      using e Inr rec by (simp add: fe)
    moreover have "only_fieldsData_changed b b'" using f1 f2 by (rule only_fieldsData_trans)
    ultimately show ?thesis using t a1 by (simp add: fe)
  qed
qed

lemma indexingConjunction_Done:
  "\<exists>r b'. indexingConjunction env cnj conjID b = Done (r, b') \<and>
     only_fieldsData_changed b b' \<and>
     (\<forall>txs nc. r = Inr (txs, nc) \<longrightarrow>
        map EID txs =
          map (\<lambda>e. NewEntryID env conjID (Incl e)) (concat (map snd (Expressions cnj))))"
proof -
  from indexingConjunction_fields_Done [of env conjID "Expressions cnj" "([], 0)" b]
  obtain r b' where
    f: "indexingConjunction_fields env conjID (Expressions cnj) ([], 0) b = Done (r, b')"
    and fr: "only_fieldsData_changed b b'"
    and t: "\<forall>txs n. r = Inr (txs, n) \<longrightarrow>
        map EID txs = map (\<lambda>e. NewEntryID env conjID (Incl e)) (concat (map snd (Expressions cnj)))"
    by auto
  show ?thesis
  proof (cases r)
    case (Inl err)
    then show ?thesis using f fr by (simp add: indexingConjunction_def)
  next
    case (Inr acc)
    obtain txs n where acc: "acc = (txs, n)" by (cases acc)
    show ?thesis using f fr t Inr acc by (simp add: indexingConjunction_def)
  qed
qed

lemma tryUseIndexingTxCache_loop_Done:
  "\<exists>txs b'. tryUseIndexingTxCache_loop env conjID fds acc b = Done (txs, b') \<and>
     only_fieldsData_changed b b'"
proof (induction fds arbitrary: acc b)
  case Nil
  show ?case by simp
next
  case (Cons fd fds)
  obtain fld fieldData where fd: "fd = (fld, fieldData)" by (cases fd)
  obtain desc b1 where c: "createFieldData fld b = Done (desc, b1)"
    and f1: "only_fieldsData_changed b b1"
    using createFieldData_Done by blast
  show ?case
  proof (cases "DecodeTxData env (CreateHolder (Size env conjID) desc) (fc_Data fieldData)")
    case (Inl err)
    then show ?thesis using c f1 by (simp add: fd Let_def)
  next
    case (Inr txData)
    let ?acc = "acc @ [\<lparr>field = desc, holder = CreateHolder (Size env conjID) desc,
                   EID = Eid fieldData, Data = txData\<rparr>]"
    from Cons.IH [of ?acc b1] obtain txs b' where
      rec: "tryUseIndexingTxCache_loop env conjID fds ?acc b1 = Done (txs, b')"
      and f2: "only_fieldsData_changed b1 b'"
      by blast
    have "tryUseIndexingTxCache_loop env conjID (fd # fds) acc b = Done (txs, b')"
      using c Inr rec by (simp add: fd Let_def)
    moreover have "only_fieldsData_changed b b'" using f1 f2 by (rule only_fieldsData_trans)
    ultimately show ?thesis by simp
  qed
qed

lemma tryUseIndexingTxCache_Done:
  "\<exists>txs b'. tryUseIndexingTxCache env conjID b = Done (txs, b') \<and> only_fieldsData_changed b b'"
  using tryUseIndexingTxCache_loop_Done [of env conjID _ "[]" b]
  by (auto simp: tryUseIndexingTxCache_def split: option.splits sum.splits)

lemma tryCacheIndexingTx_frame:
  "badConjBehavior (tryCacheIndexingTx env conjID txs b) = badConjBehavior b"
  "wildcardEntries (tryCacheIndexingTx env conjID txs b) = wildcardEntries b"
  "holders (tryCacheIndexingTx env conjID txs b) = holders b"
  "fieldsData (tryCacheIndexingTx env conjID txs b) = fieldsData b"
  by (simp_all add: tryCacheIndexingTx_def split: option.splits sum.splits)

subsection \<open>The loop over the conjunctions\<close>

lemma addWildcardEID_frame:
  "badConjBehavior (addWildcardEID eid b) = badConjBehavior b"
  "holders (addWildcardEID eid b) = holders b"
  "builderCache (addWildcardEID eid b) = builderCache b"
  "fieldsData (addWildcardEID eid b) = fieldsData b"
  "wildcardEntries (addWildcardEID eid b) = wildcardEntries b @ [eid]"
  by (simp_all add: addWildcardEID_def)

text \<open>The body of ConjLoop once the two calls it makes are known.\<close>

lemma ConjLoop_body_unfold:
  assumes "conjID = NewConjID env docID idx (CalcConjSize env cnj)"
    and "b1 = (if CalcConjSize env cnj = 0
               then addWildcardEID (NewEntryID env conjID True) b else b)"
    and "tryUseIndexingTxCache env conjID b1 = Done (cached, b2)"
    and "indexingConjunction env cnj conjID b2 = Done (r, b3)"
  shows "ConjLoop_body env docID idx cnj b =
     (if cached = [] then
        (case r of
           Inl err \<Rightarrow>
             (if badConjBehavior b3 = SkipBadConj then Continue b3
              else if badConjBehavior b3 = ErrorBadConj
              then ReturnErr (ErrIndexingConj conjID err) b3
              else Panicked)
         | Inr (txs, needCache) \<Rightarrow>
             (case commit_txs env txs
                     (holders (if needCache then tryCacheIndexingTx env conjID txs b3 else b3)) of
                Panic \<Rightarrow> Panicked
              | Done h' \<Rightarrow>
                  Continue ((if needCache then tryCacheIndexingTx env conjID txs b3 else b3)
                              \<lparr>holders := h'\<rparr>)))
      else
        (case commit_txs env cached (holders b2) of
           Panic \<Rightarrow> Panicked
         | Done h' \<Rightarrow> Continue (b2\<lparr>holders := h'\<rparr>)))"
  using assms(3,4) unfolding assms(1,2) ConjLoop_body_def Let_def
  by (simp split: sum.splits prod.splits)

lemma ConjLoop_body_shape:
  obtains conjID b1 cached b2 r b3 where
    "conjID = NewConjID env docID idx (CalcConjSize env cnj)"
    "b1 = (if CalcConjSize env cnj = 0
               then addWildcardEID (NewEntryID env conjID True) b else b)"
    "tryUseIndexingTxCache env conjID b1 = Done (cached, b2)"
    "only_fieldsData_changed b1 b2"
    "indexingConjunction env cnj conjID b2 = Done (r, b3)"
    "only_fieldsData_changed b2 b3"
proof -
  let ?c = "NewConjID env docID idx (CalcConjSize env cnj)"
  let ?b1 = "if CalcConjSize env cnj = 0
               then addWildcardEID (NewEntryID env ?c True) b else b"
  obtain cached b2 where 1: "tryUseIndexingTxCache env ?c ?b1 = Done (cached, b2)"
    "only_fieldsData_changed ?b1 b2"
    using tryUseIndexingTxCache_Done [of env ?c ?b1] by blast
  obtain r b3 where 2: "indexingConjunction env cnj ?c b2 = Done (r, b3)"
    "only_fieldsData_changed b2 b3"
    using indexingConjunction_Done [of env cnj ?c b2] by blast
  show ?thesis using that [of ?c ?b1 cached b2 r b3] 1 2 by blast
qed

lemma ConjLoop_body_ReturnErr:
  assumes "ConjLoop_body env docID idx cnj b = ReturnErr e b'"
  shows "(\<exists>err. e = ErrIndexingConj (NewConjID env docID idx (CalcConjSize env cnj)) err) \<and>
         badConjBehavior b = ErrorBadConj \<and> badConjBehavior b' = badConjBehavior b \<and>
         holders b' = holders b \<and> builderCache b' = builderCache b"
proof -
  obtain conjID b1 cached b2 r b3 where s:
    "conjID = NewConjID env docID idx (CalcConjSize env cnj)"
    "b1 = (if CalcConjSize env cnj = 0
               then addWildcardEID (NewEntryID env conjID True) b else b)"
    "tryUseIndexingTxCache env conjID b1 = Done (cached, b2)"
    "only_fieldsData_changed b1 b2"
    "indexingConjunction env cnj conjID b2 = Done (r, b3)"
    "only_fieldsData_changed b2 b3"
    by (rule ConjLoop_body_shape)
  have fr: "badConjBehavior b3 = badConjBehavior b" "holders b3 = holders b"
    "builderCache b3 = builderCache b"
    using s(2,4,6) by (auto simp: only_fieldsData_changed_def addWildcardEID_frame)
  show ?thesis
    using assms fr unfolding ConjLoop_body_unfold [OF s(1,2,3,5)]
    by (auto simp: s(1) split: if_splits sum.splits prod.splits outcome.splits)
qed

lemma ConjLoop_body_Continue:
  assumes "ConjLoop_body env docID idx cnj b = Continue b'"
  shows "badConjBehavior b' = badConjBehavior b"
proof -
  obtain conjID b1 cached b2 r b3 where s:
    "conjID = NewConjID env docID idx (CalcConjSize env cnj)"
    "b1 = (if CalcConjSize env cnj = 0
               then addWildcardEID (NewEntryID env conjID True) b else b)"
    "tryUseIndexingTxCache env conjID b1 = Done (cached, b2)"
    "only_fieldsData_changed b1 b2"
    "indexingConjunction env cnj conjID b2 = Done (r, b3)"
    "only_fieldsData_changed b2 b3"
    by (rule ConjLoop_body_shape)
  have fr: "badConjBehavior b3 = badConjBehavior b" "badConjBehavior b2 = badConjBehavior b"
    using s(2,4,6) by (auto simp: only_fieldsData_changed_def addWildcardEID_frame)
  show ?thesis
    using assms fr unfolding ConjLoop_body_unfold [OF s(1,2,3,5)]
    by (auto simp: tryCacheIndexingTx_frame split: if_splits sum.splits prod.splits outcome.splits)
qed

lemma ConjLoop_error:
  "ConjLoop env docID idx cs b = Done (Some e, b') \<Longrightarrow>
   (\<exists>cid err. e = ErrIndexingConj cid err) \<and> badConjBehavior b = ErrorBadConj"
proof (induction cs arbitrary: idx b)
  case Nil
  then show ?case by simp
next
  case (Cons cnj cs)
  show ?case
  proof (cases "ConjLoop_body env docID idx cnj b")
    case (Continue b1)
    then have "ConjLoop env docID (idx + 1) cs b1 = Done (Some e, b')"
      using Cons.prems by simp
    from Cons.IH [OF this] ConjLoop_body_Continue [OF Continue] show ?thesis by simp
  next
    case (ReturnErr e1 b1)
    then have "e1 = e" using Cons.prems by simp
    then show ?thesis using ConjLoop_body_ReturnErr [OF ReturnErr] by blast
  next
    case Panicked
    then show ?thesis using Cons.prems by simp
  qed
qed

lemma ConjLoop_append:
  "ConjLoop env docID idx (cs1 @ cs2) b =
     (case ConjLoop env docID idx cs1 b of
        Done (None, b1) \<Rightarrow> ConjLoop env docID (idx + length cs1) cs2 b1
      | other \<Rightarrow> other)"
proof (induction cs1 arbitrary: idx b)
  case Nil
  show ?case by simp
next
  case (Cons cnj cs1)
  show ?case
    by (cases "ConjLoop_body env docID idx cnj b")
       (simp_all add: Cons.IH cong: outcome.case_cong prod.case_cong option.case_cong)
qed

lemma AddDocument_append:
  "AddDocument env (ds1 @ ds2) b =
     (case AddDocument env ds1 b of
        Done (None, b1) \<Rightarrow> AddDocument env ds2 b1
      | other \<Rightarrow> other)"
proof (induction ds1 arbitrary: b)
  case Nil
  show ?case by simp
next
  case (Cons d ds1)
  show ?case
  proof (cases d)
    case None
    then show ?thesis by simp
  next
    case (Some doc)
    show ?thesis
      by (simp add: Some Cons.IH split: option.splits outcome.splits prod.splits)
  qed
qed

subsection \<open>A conjunction that fails to index\<close>

text \<open>
  C4: when \<open>indexingConjunction\<close> fails for the conjunction at some position of a
  document (the conjunctions before it went through, the cache gave nothing for it),
  \<open>buildDocEntries\<close> goes on with the next conjunction under \<open>SkipBadConj\<close>, returns the
  error under \<open>ErrorBadConj\<close>, and panics under any other value; in the first two cases
  the holders are those from before the conjunction: none of its transactions is
  committed.
\<close>

theorem buildDocEntries_bad_conj:
  assumes "Cons doc = pre @ cnj # rest" and "length (Cons doc) \<le> 0xFF"
    and "ConjLoop env (doc_ID doc) 0 pre b0 = Done (None, b)"
    and "conjID = NewConjID env (doc_ID doc) (length pre) (CalcConjSize env cnj)"
    and "b1 = (if CalcConjSize env cnj = 0
               then addWildcardEID (NewEntryID env conjID True) b else b)"
    and "tryUseIndexingTxCache env conjID b1 = Done ([], b2)"
    and "indexingConjunction env cnj conjID b2 = Done (Inl err, b3)"
  shows "buildDocEntries env doc b0 =
           (if badConjBehavior b = SkipBadConj
            then ConjLoop env (doc_ID doc) (length pre + 1) rest b3
            else if badConjBehavior b = ErrorBadConj
            then Done (Some (ErrIndexingConj conjID err), b3)
            else Panic) \<and>
         holders b3 = holders b"
proof -
  have f2: "only_fieldsData_changed b1 b2"
    using tryUseIndexingTxCache_Done [of env conjID b1] assms(6) by simp
  have f3: "only_fieldsData_changed b2 b3"
    using indexingConjunction_Done [of env cnj conjID b2] assms(7) by simp
  have fr: "badConjBehavior b3 = badConjBehavior b" "holders b3 = holders b"
    using assms(5) f2 f3 by (auto simp: only_fieldsData_changed_def addWildcardEID_frame)
  have body: "ConjLoop_body env (doc_ID doc) (length pre) cnj b =
           (if badConjBehavior b = SkipBadConj then Continue b3
            else if badConjBehavior b = ErrorBadConj
            then ReturnErr (ErrIndexingConj conjID err) b3
            else Panicked)"
    unfolding ConjLoop_body_unfold [OF assms(4,5,6,7)] by (simp add: fr)
  have "buildDocEntries env doc b0 = ConjLoop env (doc_ID doc) 0 (pre @ cnj # rest) b0"
    using assms(1,2) by (simp add: buildDocEntries_def)
  also have "\<dots> = ConjLoop env (doc_ID doc) (length pre) (cnj # rest) b"
    by (simp add: ConjLoop_append assms(3))
  also have "\<dots> = (if badConjBehavior b = SkipBadConj
            then ConjLoop env (doc_ID doc) (length pre + 1) rest b3
            else if badConjBehavior b = ErrorBadConj
            then Done (Some (ErrIndexingConj conjID err), b3)
            else Panic)"
    by (simp add: body)
  finally show ?thesis using fr by simp
qed

lemma ex_pre:
  "ConjLoop ex_env (doc_ID ex_doc2) 0 [ex_good_conj] (ex_builder k None) =
     Done (None, ex_state k [(''city'', ex_desc 0 ''city'')] [ex_city_tx (ex_NewConjID 2 0 1)])"
  by code_simp

lemma ex_bad_miss:
  "tryUseIndexingTxCache ex_env (ex_NewConjID 2 1 1)
     (ex_state k [(''city'', ex_desc 0 ''city'')] [ex_city_tx (ex_NewConjID 2 0 1)]) =
   Done ([], ex_state k [(''city'', ex_desc 0 ''city'')] [ex_city_tx (ex_NewConjID 2 0 1)])"
  by code_simp

lemma ex_bad_fails:
  "indexingConjunction ex_env ex_bad_conj (ex_NewConjID 2 1 1)
     (ex_state k [(''city'', ex_desc 0 ''city'')] [ex_city_tx (ex_NewConjID 2 0 1)]) =
   Done (Inl (ErrIndexingField ''age'' (PluginError ''negative value'')),
         ex_state k [(''city'', ex_desc 0 ''city''), (''age'', ex_desc 1 ''age'')]
           [ex_city_tx (ex_NewConjID 2 0 1)])"
  by code_simp

text \<open>
  C4 on the example document of three conjunctions whose second one the holder rejects:
  under \<open>ErrorBadConj\<close> the build returns the error with the first conjunction's
  transaction still the only one committed, under \<open>SkipBadConj\<close> it goes on and commits
  the third conjunction, under \<open>PanicBadConj\<close> it panics.
\<close>

theorem buildDocEntries_bad_conj_witness:
  "buildDocEntries ex_env ex_doc2 (ex_builder ErrorBadConj None) =
     Done (Some (ErrIndexingConj (ex_NewConjID 2 1 1)
                   (ErrIndexingField ''age'' (PluginError ''negative value''))),
           ex_state ErrorBadConj [(''city'', ex_desc 0 ''city''), (''age'', ex_desc 1 ''age'')]
             [ex_city_tx (ex_NewConjID 2 0 1)]) \<and>
   buildDocEntries ex_env ex_doc2 (ex_builder SkipBadConj None) =
     Done (None,
           ex_state SkipBadConj [(''city'', ex_desc 0 ''city''), (''age'', ex_desc 1 ''age'')]
             [ex_city_tx (ex_NewConjID 2 0 1), ex_city_tx (ex_NewConjID 2 2 1)]) \<and>
   buildDocEntries ex_env ex_doc2 (ex_builder PanicBadConj None) = Panic"
proof -
  let ?good = "\<lambda>k. ex_state k [(''city'', ex_desc 0 ''city'')] [ex_city_tx (ex_NewConjID 2 0 1)]"
  let ?bad = "\<lambda>k. ex_state k [(''city'', ex_desc 0 ''city''), (''age'', ex_desc 1 ''age'')]
                    [ex_city_tx (ex_NewConjID 2 0 1)]"
  have doc: "Cons ex_doc2 = [ex_good_conj] @ ex_bad_conj # [ex_good_conj]"
    "length (Cons ex_doc2) \<le> 0xFF"
    by (simp_all add: ex_doc2_def)
  have cid: "ex_NewConjID 2 1 1 =
             NewConjID ex_env (doc_ID ex_doc2) (length [ex_good_conj]) (CalcConjSize ex_env ex_bad_conj)"
    by code_simp
  have b1: "\<And>k. ?good k = (if CalcConjSize ex_env ex_bad_conj = 0
               then addWildcardEID (NewEntryID ex_env (ex_NewConjID 2 1 1) True) (?good k)
               else ?good k)"
    by (simp add: ex_env_def ex_CalcConjSize_def ex_bad_conj_def)
  note inst = buildDocEntries_bad_conj [OF doc ex_pre cid b1 ex_bad_miss ex_bad_fails]
  have rest: "ConjLoop ex_env (doc_ID ex_doc2) (length [ex_good_conj] + 1) [ex_good_conj]
                (?bad SkipBadConj) =
     Done (None,
           ex_state SkipBadConj [(''city'', ex_desc 0 ''city''), (''age'', ex_desc 1 ''age'')]
             [ex_city_tx (ex_NewConjID 2 0 1), ex_city_tx (ex_NewConjID 2 2 1)])"
    by code_simp
  have k: "badConjBehavior (?good ErrorBadConj) = ErrorBadConj"
    "badConjBehavior (?good SkipBadConj) = SkipBadConj"
    "badConjBehavior (?good PanicBadConj) = PanicBadConj"
    by (simp_all add: ex_state_def)
  have ne: "ErrorBadConj \<noteq> SkipBadConj" "PanicBadConj \<noteq> SkipBadConj" "PanicBadConj \<noteq> ErrorBadConj"
    by (simp_all add: ErrorBadConj_def SkipBadConj_def PanicBadConj_def)
  have E: "buildDocEntries ex_env ex_doc2 (ex_builder ErrorBadConj None) =
     Done (Some (ErrIndexingConj (ex_NewConjID 2 1 1)
                   (ErrIndexingField ''age'' (PluginError ''negative value''))),
           ?bad ErrorBadConj)"
    using inst [of ErrorBadConj, THEN conjunct1] unfolding k
    by (simp only: ne if_False if_True simp_thms)
  have S: "buildDocEntries ex_env ex_doc2 (ex_builder SkipBadConj None) =
     Done (None,
           ex_state SkipBadConj [(''city'', ex_desc 0 ''city''), (''age'', ex_desc 1 ''age'')]
             [ex_city_tx (ex_NewConjID 2 0 1), ex_city_tx (ex_NewConjID 2 2 1)])"
    using inst [of SkipBadConj, THEN conjunct1] unfolding k rest
    by (simp only: if_True simp_thms)
  have P: "buildDocEntries ex_env ex_doc2 (ex_builder PanicBadConj None) = Panic"
    using inst [of PanicBadConj, THEN conjunct1] unfolding k
    by (simp only: ne if_False simp_thms)
  show ?thesis using E S P by (intro conjI)
qed

subsection \<open>A conjunction of size 0\<close>

text \<open>
  C1, as the code has it: for a conjunction whose size K is 0 the builder emits the
  wildcard EntryID (include flag true) of the conjunction's ConjunctionID and then goes
  on with the conjunction as with any other. When the cache gives nothing for it,
  \<open>IndexingBETx\<close> runs on its expressions and, when all of them succeed and the commits
  go through, the turn of the loop ends with the transactions committed into the
  holders: one per expression, in order, with the expression's inclusion flag.
\<close>

theorem wildcard_conj_is_indexed:
  assumes "CalcConjSize env cnj = 0"
    and "conjID = NewConjID env docID idx 0"
    and "tryUseIndexingTxCache env conjID (addWildcardEID (NewEntryID env conjID True) b) =
           Done ([], b2)"
    and "indexingConjunction env cnj conjID b2 = Done (Inr (txs, needCache), b3)"
    and "commit_txs env txs (holders b) = Done h'"
  shows "ConjLoop_body env docID idx cnj b =
           Continue ((if needCache then tryCacheIndexingTx env conjID txs b3 else b3)
                       \<lparr>holders := h'\<rparr>) \<and>
         wildcardEntries b3 = wildcardEntries b @ [NewEntryID env conjID True] \<and>
         map EID txs =
           map (\<lambda>e. NewEntryID env conjID (Incl e)) (concat (map snd (Expressions cnj)))"
proof -
  let ?b1 = "addWildcardEID (NewEntryID env conjID True) b"
  have cid: "conjID = NewConjID env docID idx (CalcConjSize env cnj)"
    using assms(1,2) by simp
  have b1: "?b1 = (if CalcConjSize env cnj = 0 then ?b1 else b)"
    using assms(1) by simp
  have f2: "only_fieldsData_changed ?b1 b2"
    using tryUseIndexingTxCache_Done [of env conjID ?b1] assms(3) by simp
  have f3: "only_fieldsData_changed b2 b3"
    and eids: "map EID txs =
           map (\<lambda>e. NewEntryID env conjID (Incl e)) (concat (map snd (Expressions cnj)))"
    using indexingConjunction_Done [of env cnj conjID b2] assms(4) by simp_all
  have fr: "holders b3 = holders b"
    "wildcardEntries b3 = wildcardEntries b @ [NewEntryID env conjID True]"
    using f2 f3 by (simp_all add: only_fieldsData_changed_def addWildcardEID_frame)
  have "ConjLoop_body env docID idx cnj b =
           Continue ((if needCache then tryCacheIndexingTx env conjID txs b3 else b3)
                       \<lparr>holders := h'\<rparr>)"
    unfolding ConjLoop_body_unfold [OF cid b1 assms(3,4)]
    using assms(5) by (simp add: fr tryCacheIndexingTx_frame)
  then show ?thesis using fr eids by simp
qed

text \<open>
  C1, the claim as stated fails: the document with the one conjunction \<open>NOT age IN {5}\<close>
  has a conjunction of size 0, and after \<open>buildDocEntries\<close> the holders have the
  transaction of its expression, next to the wildcard entry.
\<close>

theorem wildcard_conj_committed:
  "CalcConjSize ex_env ex_exclude_conj = 0 \<and>
   buildDocEntries ex_env ex_doc0 (ex_builder ErrorBadConj None) =
     Done (None,
       \<lparr>badConjBehavior = ErrorBadConj, builderCache = None,
        fieldsData = [(''age'', ex_desc 0 ''age'')],
        wildcardEntries = [ex_NewEntryID (ex_NewConjID 1 0 0) True],
        holders = [ex_age_tx 0 (ex_NewConjID 1 0 0) False [5]]\<rparr>)"
  by code_simp

text \<open>
  C1, the amended statement on the same conjunction: the wildcard entry is emitted and
  the transaction of the exclude expression is committed.
\<close>

theorem wildcard_conj_is_indexed_witness:
  "ConjLoop_body ex_env 1 0 ex_exclude_conj (ex_builder ErrorBadConj None) =
     Continue
       \<lparr>badConjBehavior = ErrorBadConj, builderCache = None,
        fieldsData = [(''age'', ex_desc 0 ''age'')],
        wildcardEntries = [ex_NewEntryID (ex_NewConjID 1 0 0) True],
        holders = [ex_age_tx 0 (ex_NewConjID 1 0 0) False [5]]\<rparr>"
proof -
  let ?b = "ex_builder ErrorBadConj None"
  let ?c = "ex_NewConjID 1 0 0"
  let ?b3 = "\<lparr>badConjBehavior = ErrorBadConj, builderCache = None,
        fieldsData = [(''age'', ex_desc 0 ''age'')],
        wildcardEntries = [ex_NewEntryID ?c True],
        holders = []\<rparr> :: (bytes IndexingBETx list, IndexingTxCache) IndexerBuilder"
  have 1: "CalcConjSize ex_env ex_exclude_conj = 0" by code_simp
  have 2: "?c = NewConjID ex_env 1 0 0" by code_simp
  have 3: "tryUseIndexingTxCache ex_env ?c (addWildcardEID (NewEntryID ex_env ?c True) ?b) =
             Done ([], addWildcardEID (NewEntryID ex_env ?c True) ?b)"
    by code_simp
  have 4: "indexingConjunction ex_env ex_exclude_conj ?c
             (addWildcardEID (NewEntryID ex_env ?c True) ?b) =
           Done (Inr ([ex_age_tx 0 ?c False [5]], True), ?b3)"
    by code_simp
  have 5: "commit_txs ex_env [ex_age_tx 0 ?c False [5]] (holders ?b) =
           Done [ex_age_tx 0 ?c False [5]]"
    by code_simp
  have 6: "(if True then tryCacheIndexingTx ex_env ?c [ex_age_tx 0 ?c False [5]] ?b3 else ?b3)
             \<lparr>holders := [ex_age_tx 0 ?c False [5]]\<rparr> =
           \<lparr>badConjBehavior = ErrorBadConj, builderCache = None,
        fieldsData = [(''age'', ex_desc 0 ''age'')],
        wildcardEntries = [ex_NewEntryID ?c True],
        holders = [ex_age_tx 0 ?c False [5]]\<rparr>"
    by code_simp
  show ?thesis
    using wildcard_conj_is_indexed [OF 1 2 3 4 5, THEN conjunct1] unfolding 6 .
qed

subsection \<open>AddDocument: validation\<close>

lemma validDocument_None_iff:
  "validDocument doc = None \<longleftrightarrow> 1 \<le> length (Cons doc) \<and> length (Cons doc) \<le> 255"
  by (cases "Cons doc") (auto simp: validDocument_def)

text \<open>
  C5, as the code has it: a document passes \<open>validDocument\<close> exactly when it has between
  1 and 255 conjunctions; for a document that does not pass, \<open>AddDocument\<close> returns the
  validation error and the builder is as it was before the document; for a document that
  passes, an error of \<open>AddDocument\<close> is the error of indexing one of its conjunctions
  under \<open>ErrorBadConj\<close>.
\<close>

theorem AddDocument_validation:
  "(validDocument doc = None \<longleftrightarrow> 1 \<le> length (Cons doc) \<and> length (Cons doc) \<le> 255) \<and>
   (validDocument doc \<noteq> None \<longrightarrow>
      AddDocument env (Some doc # docs) b = Done (validDocument doc, b)) \<and>
   (validDocument doc = None \<longrightarrow>
      (\<forall>e b'. AddDocument env [Some doc] b = Done (Some e, b') \<longrightarrow>
         (\<exists>conjID err. e = ErrIndexingConj conjID err) \<and> badConjBehavior b = ErrorBadConj))"
proof -
  have 1: "validDocument doc \<noteq> None \<longrightarrow>
      AddDocument env (Some doc # docs) b = Done (validDocument doc, b)"
    by (cases "validDocument doc") simp_all
  have 2: "validDocument doc = None \<longrightarrow>
      (\<forall>e b'. AddDocument env [Some doc] b = Done (Some e, b') \<longrightarrow>
         (\<exists>conjID err. e = ErrIndexingConj conjID err) \<and> badConjBehavior b = ErrorBadConj)"
  proof (intro impI allI)
    fix e b'
    assume v: "validDocument doc = None"
      and a: "AddDocument env [Some doc] b = Done (Some e, b')"
    have len: "length (Cons doc) \<noteq> 0" "\<not> length (Cons doc) > 0xFF"
      using v by (auto simp: validDocument_def split: if_splits)
    have "buildDocEntries env doc b = Done (Some e, b')"
      using a v by (auto split: outcome.splits option.splits prod.splits)
    then have "ConjLoop env (doc_ID doc) 0 (Cons doc) b = Done (Some e, b')"
      using len by (simp add: buildDocEntries_def)
    then show "(\<exists>conjID err. e = ErrIndexingConj conjID err) \<and> badConjBehavior b = ErrorBadConj"
      by (rule ConjLoop_error)
  qed
  show ?thesis using validDocument_None_iff [of doc] 1 2 by blast
qed

text \<open>
  C5, the claim as stated fails: the example document has one conjunction, and
  \<open>AddDocument\<close> returns an error for it, because the holder rejects the value \<open>-1\<close> and
  the behaviour is \<open>ErrorBadConj\<close>.
\<close>

theorem AddDocument_error_on_valid_count:
  "length (Cons ex_bad_doc) = 1 \<and>
   AddDocument ex_env [Some ex_bad_doc] (ex_builder ErrorBadConj None) =
     Done (Some (ErrIndexingConj (ex_NewConjID 1 0 1)
                   (ErrIndexingField ''age'' (PluginError ''negative value''))),
           ex_state ErrorBadConj [(''age'', ex_desc 0 ''age'')] [])"
  by code_simp

text \<open>
  C5, the amended statement on a document of 256 conjunctions, which is rejected with
  the builder unchanged (the document after it is not reached), and on one of three
  conjunctions, which passes validation.
\<close>

theorem AddDocument_validation_witness:
  "length (Cons ex_big_doc) = 256 \<and>
   AddDocument ex_env [Some ex_big_doc, Some ex_doc1] (ex_builder ErrorBadConj None) =
     Done (Some ErrTooManyConjunctions, ex_builder ErrorBadConj None) \<and>
   validDocument ex_doc2 = None"
proof -
  have l: "length (Cons ex_big_doc) = 256" by (simp add: ex_big_doc_def)
  have v: "validDocument ex_big_doc = Some ErrTooManyConjunctions"
    by (simp add: validDocument_def l)
  have l2: "1 \<le> length (Cons ex_doc2) \<and> length (Cons ex_doc2) \<le> 255"
    by (simp add: ex_doc2_def)
  note t = AddDocument_validation [where doc = ex_big_doc and env = ex_env
      and docs = "[Some ex_doc1]" and b = "ex_builder ErrorBadConj None"]
  have a: "AddDocument ex_env [Some ex_big_doc, Some ex_doc1] (ex_builder ErrorBadConj None) =
     Done (Some ErrTooManyConjunctions, ex_builder ErrorBadConj None)"
    using t v by simp
  have b: "validDocument ex_doc2 = None"
    using AddDocument_validation [where doc = ex_doc2 and env = ex_env and docs = "[]"
        and b = "ex_builder ErrorBadConj None", THEN conjunct1] l2 by simp
  show ?thesis using l a b by simp
qed

subsection \<open>AddDocument: no rollback\<close>

text \<open>
  C10: documents are processed in order. When the documents \<open>ds1\<close> went through and the
  next document passes validation, its conjunctions \<open>cs1\<close> went through and the turn of
  the loop for the next conjunction returns an error (which happens under
  \<open>ErrorBadConj\<close> only), \<open>AddDocument\<close> returns that error, the documents \<open>ds2\<close> are not
  looked at, and the builder it leaves has the holders as they were after \<open>ds1\<close> and
  \<open>cs1\<close>: nothing is rolled back. A document that fails validation after \<open>ds1\<close> likewise
  ends the call with the builder as it was after \<open>ds1\<close>.
\<close>

theorem AddDocument_no_rollback:
  assumes "AddDocument env ds1 b = Done (None, b1)"
    and "validDocument d = None" and "Cons d = cs1 @ cnj # cs2"
    and "ConjLoop env (doc_ID d) 0 cs1 b1 = Done (None, b2)"
    and "ConjLoop_body env (doc_ID d) (length cs1) cnj b2 = ReturnErr e b3"
  shows "AddDocument env (ds1 @ Some d # ds2) b = Done (Some e, b3) \<and>
         holders b3 = holders b2 \<and> badConjBehavior b2 = ErrorBadConj \<and>
         (\<forall>d' e'. validDocument d' = Some e' \<longrightarrow>
            AddDocument env (ds1 @ Some d' # ds2) b = Done (Some e', b1))"
proof -
  have len: "length (Cons d) \<noteq> 0" "\<not> length (Cons d) > 0xFF"
    using assms(2) by (auto simp: validDocument_def split: if_splits)
  have "ConjLoop env (doc_ID d) 0 (Cons d) b1 =
        ConjLoop env (doc_ID d) (length cs1) (cnj # cs2) b2"
    unfolding assms(3) by (simp add: ConjLoop_append assms(4))
  also have "\<dots> = Done (Some e, b3)" by (simp add: assms(5))
  finally have "buildDocEntries env d b1 = Done (Some e, b3)"
    using len by (simp add: buildDocEntries_def)
  then have r: "AddDocument env (ds1 @ Some d # ds2) b = Done (Some e, b3)"
    by (simp add: AddDocument_append assms(1,2))
  have h: "holders b3 = holders b2" "badConjBehavior b2 = ErrorBadConj"
    using ConjLoop_body_ReturnErr [OF assms(5)] by simp_all
  have v: "\<forall>d' e'. validDocument d' = Some e' \<longrightarrow>
            AddDocument env (ds1 @ Some d' # ds2) b = Done (Some e', b1)"
    by (simp add: AddDocument_append assms(1))
  show ?thesis using r h v by simp
qed

text \<open>
  C10 on three documents of which the second fails at its second conjunction: the error
  is returned with the transactions of the first document and of the first conjunction
  of the second document in the holders.
\<close>

theorem AddDocument_no_rollback_witness:
  "AddDocument ex_env [Some ex_doc1, Some ex_doc2, Some ex_doc1] (ex_builder ErrorBadConj None) =
     Done (Some (ErrIndexingConj (ex_NewConjID 2 1 1)
                   (ErrIndexingField ''age'' (PluginError ''negative value''))),
           ex_state ErrorBadConj [(''city'', ex_desc 0 ''city''), (''age'', ex_desc 1 ''age'')]
             [ex_city_tx (ex_NewConjID 1 0 1), ex_city_tx (ex_NewConjID 2 0 1)]) \<and>
   holders (ex_state ErrorBadConj [(''city'', ex_desc 0 ''city''), (''age'', ex_desc 1 ''age'')]
             [ex_city_tx (ex_NewConjID 1 0 1), ex_city_tx (ex_NewConjID 2 0 1)]) =
     [ex_city_tx (ex_NewConjID 1 0 1), ex_city_tx (ex_NewConjID 2 0 1)]"
proof -
  let ?b1 = "ex_state ErrorBadConj [(''city'', ex_desc 0 ''city'')]
               [ex_city_tx (ex_NewConjID 1 0 1)]"
  let ?b2 = "ex_state ErrorBadConj [(''city'', ex_desc 0 ''city'')]
               [ex_city_tx (ex_NewConjID 1 0 1), ex_city_tx (ex_NewConjID 2 0 1)]"
  let ?b3 = "ex_state ErrorBadConj [(''city'', ex_desc 0 ''city''), (''age'', ex_desc 1 ''age'')]
               [ex_city_tx (ex_NewConjID 1 0 1), ex_city_tx (ex_NewConjID 2 0 1)]"
  have 1: "AddDocument ex_env [Some ex_doc1] (ex_builder ErrorBadConj None) = Done (None, ?b1)"
    by code_simp
  have 2: "validDocument ex_doc2 = None" by code_simp
  have 3: "Cons ex_doc2 = [ex_good_conj] @ ex_bad_conj # [ex_good_conj]"
    by (simp add: ex_doc2_def)
  have 4: "ConjLoop ex_env (doc_ID ex_doc2) 0 [ex_good_conj] ?b1 = Done (None, ?b2)"
    by code_simp
  have 5: "ConjLoop_body ex_env (doc_ID ex_doc2) (length [ex_good_conj]) ex_bad_conj ?b2 =
             ReturnErr (ErrIndexingConj (ex_NewConjID 2 1 1)
                          (ErrIndexingField ''age'' (PluginError ''negative value''))) ?b3"
    by code_simp
  have r: "AddDocument ex_env ([Some ex_doc1] @ Some ex_doc2 # [Some ex_doc1])
             (ex_builder ErrorBadConj None) =
           Done (Some (ErrIndexingConj (ex_NewConjID 2 1 1)
                   (ErrIndexingField ''age'' (PluginError ''negative value''))), ?b3)"
    using AddDocument_no_rollback [OF 1 2 3 4 5, THEN conjunct1] .
  have h: "holders ?b3 = [ex_city_tx (ex_NewConjID 1 0 1), ex_city_tx (ex_NewConjID 2 0 1)]"
    by (simp add: ex_state_def)
  show ?thesis using r h by simp
qed

subsection \<open>The transaction cache and two expressions on one field\<close>

lemma tryCacheIndexingTx_loop_distinct:
  assumes "distinct (map (\<lambda>tx. Field (field tx)) txs)"
    and "set (map (\<lambda>tx. Field (field tx)) txs) \<inter> fst ` set (FieldData m) = {}"
    and "\<forall>tx \<in> set txs. Encode env (Data tx) = Inr (enc (Data tx))"
  shows "tryCacheIndexingTx_loop env txs m =
     Some (m\<lparr>FieldData := FieldData m @
              map (\<lambda>tx. (Field (field tx), \<lparr>Eid = EID tx, fc_Data = enc (Data tx)\<rparr>)) txs\<rparr>)"
  using assms
proof (induction txs arbitrary: m)
  case Nil
  show ?case by simp
next
  case (Cons tx txs)
  let ?e = "(Field (field tx), \<lparr>Eid = EID tx, fc_Data = enc (Data tx)\<rparr>)"
  let ?m = "m\<lparr>FieldData := FieldData m @ [?e]\<rparr>"
  have absent: "map_of (FieldData m) (Field (field tx)) = None"
    using Cons.prems(2) by (auto simp: map_of_eq_None_iff)
  have upd: "AList.update (Field (field tx)) \<lparr>Eid = EID tx, fc_Data = enc (Data tx)\<rparr>
               (FieldData m) = FieldData m @ [?e]"
    by (rule update_absent [OF absent])
  have enc: "Encode env (Data tx) = Inr (enc (Data tx))" using Cons.prems(3) by simp
  have step: "tryCacheIndexingTx_loop env (tx # txs) m = tryCacheIndexingTx_loop env txs ?m"
    by (simp add: enc upd)
  have d: "distinct (map (\<lambda>tx. Field (field tx)) txs)" using Cons.prems(1) by simp
  have disj: "set (map (\<lambda>tx. Field (field tx)) txs) \<inter> fst ` set (FieldData ?m) = {}"
    using Cons.prems(1,2) by auto
  have e: "\<forall>tx \<in> set txs. Encode env (Data tx) = Inr (enc (Data tx))"
    using Cons.prems(3) by simp
  show ?case unfolding step Cons.IH [OF d disj e] by simp
qed

lemma tryUseIndexingTxCache_loop_decodes:
  assumes "\<forall>tx \<in> set txs.
             map_of (fieldsData b) (Field (field tx)) = Some (field tx) \<and>
             CreateHolder (Size env conjID) (field tx) = holder tx \<and>
             DecodeTxData env (holder tx) (enc (Data tx)) = Inr (Data tx)"
  shows "tryUseIndexingTxCache_loop env conjID
           (map (\<lambda>tx. (Field (field tx), \<lparr>Eid = EID tx, fc_Data = enc (Data tx)\<rparr>)) txs) acc b =
         Done (acc @ txs, b)"
  using assms
proof (induction txs arbitrary: acc)
  case Nil
  show ?case by simp
next
  case (Cons tx txs)
  have c: "createFieldData (Field (field tx)) b = Done (field tx, b)"
    using Cons.prems by (simp add: createFieldData_def)
  have h: "CreateHolder (Size env conjID) (field tx) = holder tx"
    using Cons.prems by auto
  have dd: "DecodeTxData env (holder tx) (enc (Data tx)) = Inr (Data tx)"
    using Cons.prems by auto
  have tx: "\<lparr>field = field tx, holder = holder tx, EID = EID tx, Data = Data tx\<rparr> = tx"
    by simp
  have rest: "\<forall>tx \<in> set txs.
             map_of (fieldsData b) (Field (field tx)) = Some (field tx) \<and>
             CreateHolder (Size env conjID) (field tx) = holder tx \<and>
             DecodeTxData env (holder tx) (enc (Data tx)) = Inr (Data tx)"
    using Cons.prems by simp
  show ?case using Cons.IH [OF rest, of "acc @ [tx]"]
    by (simp add: c h dd tx Let_def)
qed

text \<open>
  With at most one transaction per field, codecs that give back what was encoded and
  the fields configured as they were, a cache hit returns the very transactions that
  were cached: the per-field key is the only thing that loses data.
\<close>

lemma cache_roundtrip_one_tx_per_field:
  assumes "builderCache b = Some store"
    and "distinct (map (\<lambda>tx. Field (field tx)) txs)"
    and "\<forall>tx \<in> set txs. Encode env (Data tx) = Inr (enc (Data tx))"
    and "\<forall>c. \<exists>bs. Marshal env c = Inr bs \<and> Unmarshal env bs = Inr c"
    and "\<forall>tx \<in> set txs.
           map_of (fieldsData b') (Field (field tx)) = Some (field tx) \<and>
           CreateHolder (Size env conjID) (field tx) = holder tx \<and>
           DecodeTxData env (holder tx) (enc (Data tx)) = Inr (Data tx)"
    and "builderCache b' = builderCache (tryCacheIndexingTx env conjID txs b)"
  shows "tryUseIndexingTxCache env conjID b' = Done (txs, b')"
proof -
  let ?m = "\<lparr>ConjunctionId = conjID,
             FieldData = map (\<lambda>tx. (Field (field tx), \<lparr>Eid = EID tx, fc_Data = enc (Data tx)\<rparr>)) txs\<rparr>"
  have l: "tryCacheIndexingTx_loop env txs \<lparr>ConjunctionId = conjID, FieldData = []\<rparr> = Some ?m"
    using tryCacheIndexingTx_loop_distinct [OF assms(2) _ assms(3),
        of "\<lparr>ConjunctionId = conjID, FieldData = []\<rparr>"]
    by simp
  obtain bs where bs: "Marshal env ?m = Inr bs" "Unmarshal env bs = Inr ?m"
    using assms(4) by blast
  have "builderCache b' = Some (AList.update conjID bs store)"
    using assms(1,6) l bs(1) by (simp add: tryCacheIndexingTx_def)
  then show ?thesis
    using tryUseIndexingTxCache_loop_decodes [OF assms(5), of "[]"] bs(2)
    by (simp add: tryUseIndexingTxCache_def update_conv')
qed

text \<open>
  C7 fails on a conjunction with two expressions on one field, \<open>age IN {1} AND NOT age
  IN {2}\<close>. The first build, with an empty cache, commits two transactions and stores
  the conjunction in the cache; \<open>FieldData\<close> is keyed by the field's name, so the entry of
  the second transaction overwrites that of the first. The second build of the same
  document on a new builder with that cache hits the cache and commits the one
  transaction that is left.
\<close>

theorem cache_rebuild_drops_transaction:
  "AddDocument ex_env [Some ex_doc3] (ex_builder ErrorBadConj (Some [])) =
     Done (None,
       \<lparr>badConjBehavior = ErrorBadConj,
        builderCache = Some [(ex_NewConjID 3 0 1,
          \<lparr>ConjunctionId = ex_NewConjID 3 0 1,
           FieldData = [(''age'', \<lparr>Eid = ex_NewEntryID (ex_NewConjID 3 0 1) False,
                                    fc_Data = [2]\<rparr>)]\<rparr>)],
        fieldsData = [(''age'', ex_desc 0 ''age'')],
        wildcardEntries = [],
        holders = [ex_age_tx 1 (ex_NewConjID 3 0 1) True [1],
                   ex_age_tx 1 (ex_NewConjID 3 0 1) False [2]]\<rparr>) \<and>
   AddDocument ex_env [Some ex_doc3]
       (ex_builder ErrorBadConj (Some [(ex_NewConjID 3 0 1,
          \<lparr>ConjunctionId = ex_NewConjID 3 0 1,
           FieldData = [(''age'', \<lparr>Eid = ex_NewEntryID (ex_NewConjID 3 0 1) False,
                                    fc_Data = [2]\<rparr>)]\<rparr>)])) =
     Done (None,
       \<lparr>badConjBehavior = ErrorBadConj,
        builderCache = Some [(ex_NewConjID 3 0 1,
          \<lparr>ConjunctionId = ex_NewConjID 3 0 1,
           FieldData = [(''age'', \<lparr>Eid = ex_NewEntryID (ex_NewConjID 3 0 1) False,
                                    fc_Data = [2]\<rparr>)]\<rparr>)],
        fieldsData = [(''age'', ex_desc 0 ''age'')],
        wildcardEntries = [],
        holders = [ex_age_tx 1 (ex_NewConjID 3 0 1) False [2]]\<rparr>)"
  by code_simp

end
